theory Spec2Isabelle
  imports Main "HOL-Library.Sublist" "HOL-Library.Char_ord" "HOL-Library.List_Lexorder"
    "HOL-Library.Product_Lexorder" "HOL-Library.Multiset"
begin

chapter \<open>OptiScaler auto manager: the embedding\<close>

text \<open>
  A shallow embedding of the Python sources \<^verbatim>\<open>optiscaler_installer.py\<close>,
  \<^verbatim>\<open>steam_utils.py\<close>, \<^verbatim>\<open>fsr_manager.py\<close> and the uninstall branch of
  \<^verbatim>\<open>cli.py\<close>. Python strings are \<open>string\<close>; a path is the string that
  \<^verbatim>\<open>str(Path(...))\<close> gives; a dict with fixed keys is a record; a raise is a value
  \<open>Inl e\<close> of a sum type; the file system, the network and the operator are explicit
  arguments.
\<close>

section \<open>Strings\<close>

text \<open>\<^verbatim>\<open>str.lower()\<close> on the ASCII letters (other characters are left as they are).\<close>

definition lower_char :: "char \<Rightarrow> char" where
  "lower_char c =
     (case map_of (zip ''ABCDEFGHIJKLMNOPQRSTUVWXYZ'' ''abcdefghijklmnopqrstuvwxyz'') c of
        Some d \<Rightarrow> d
      | None \<Rightarrow> c)"

definition lower :: "string \<Rightarrow> string" where
  "lower s = map lower_char s"

text \<open>\<^verbatim>\<open>a in s\<close> on strings, \<^verbatim>\<open>s.startswith(a)\<close> and \<^verbatim>\<open>s.endswith(a)\<close>.\<close>

definition contains :: "string \<Rightarrow> string \<Rightarrow> bool" where
  "contains a s = sublist a s"

definition startswith :: "string \<Rightarrow> string \<Rightarrow> bool" where
  "startswith s a = prefix a s"

definition endswith :: "string \<Rightarrow> string \<Rightarrow> bool" where
  "endswith s a = suffix a s"

text \<open>\<^verbatim>\<open>any(skip in s for skip in skips)\<close>.\<close>

definition any_in :: "string list \<Rightarrow> string \<Rightarrow> bool" where
  "any_in skips s = list_ex (\<lambda>skip. contains skip s) skips"

text \<open>
  \<^verbatim>\<open>str.strip()\<close>: the ASCII white space of \<^verbatim>\<open>str.isspace\<close> (tab, line feed,
  vertical tab, form feed, carriage return, the four separators 28 to 31, space) is
  removed at both ends.
\<close>

definition is_space :: "char \<Rightarrow> bool" where
  "is_space c =
     (c \<in> set [CHR 0x09, CHR 0x0A, CHR 0x0B, CHR 0x0C, CHR 0x0D,
                CHR 0x1C, CHR 0x1D, CHR 0x1E, CHR 0x1F, CHR 0x20])"

definition strip :: "string \<Rightarrow> string" where
  "strip s = rev (dropWhile is_space (rev (dropWhile is_space s)))"

text \<open>\<^verbatim>\<open>s.split(sep)\<close> for a one-character separator: the pieces between the separators.\<close>

fun split_on :: "char \<Rightarrow> string \<Rightarrow> string list" where
  "split_on sep [] = [[]]"
| "split_on sep (c # cs) =
     (if c = sep then [] # split_on sep cs
      else (case split_on sep cs of
              [] \<Rightarrow> [[c]]
            | p # ps \<Rightarrow> (c # p) # ps))"

text \<open>
  \<^verbatim>\<open>f.readlines()\<close> on the text of a file: every line keeps its line feed, the last
  line has one only if the text ends in one, and the empty text has no line.
\<close>

fun readlines :: "string \<Rightarrow> string list" where
  "readlines [] = []"
| "readlines (c # cs) =
     (if c = CHR 0x0A then [c] # readlines cs
      else (case readlines cs of
              [] \<Rightarrow> [[c]]
            | l # ls \<Rightarrow> (c # l) # ls))"

text \<open>\<^verbatim>\<open>f.writelines(lines)\<close> writes the lines one after the other.\<close>

definition writelines :: "string list \<Rightarrow> string" where
  "writelines ls = concat ls"

section \<open>Errors and the file system\<close>

datatype error =
    FileNotFoundError | IsADirectoryError | NotADirectoryError | FileExistsError
  | PermissionError | SameFileError | ShutilError | KeyError | ValueError | IndexError
  | RequestException

datatype node = File string | Dir

text \<open>
  The file system: the node at each path, and the paths on which the host refuses a
  write (a read-only mount, missing permissions); a refused write raises
  \<^verbatim>\<open>PermissionError\<close>.
\<close>

record filesystem =
  nodes :: "string \<Rightarrow> node option"
  refused :: "string \<Rightarrow> bool"

text \<open>\<^verbatim>\<open>Path(d) / name\<close> as a string, and \<^verbatim>\<open>os.path.basename\<close>.\<close>

definition pjoin :: "string \<Rightarrow> string \<Rightarrow> string" where
  "pjoin d n = (if startswith n ''/'' then n else if endswith d ''/'' then d @ n else d @ ''/'' @ n)"

definition basename :: "string \<Rightarrow> string" where
  "basename p = last (split_on CHR ''/'' p)"

definition exists :: "filesystem \<Rightarrow> string \<Rightarrow> bool" where
  "exists fs p = (nodes fs p \<noteq> None)"

definition is_dir :: "filesystem \<Rightarrow> string \<Rightarrow> bool" where
  "is_dir fs p = (nodes fs p = Some Dir)"

definition put :: "filesystem \<Rightarrow> string \<Rightarrow> node option \<Rightarrow> filesystem" where
  "put fs p n = fs\<lparr>nodes := (nodes fs)(p := n)\<rparr>"

text \<open>\<^verbatim>\<open>os.path.dirname\<close> of a path string without a slash at its end.\<close>

definition dirname :: "string \<Rightarrow> string" where
  "dirname p =
     (let d = rev (drop 1 (dropWhile (\<lambda>c. c \<noteq> CHR ''/'') (rev p))) in
      if d = [] then (if startswith p ''/'' then ''/'' else ''.'') else d)"

text \<open>
  Creating or replacing the file at \<open>p\<close> in a directory that is known to exist, and
  \<^verbatim>\<open>open(p, 'w').write(data)\<close>, which raises when the directory of \<open>p\<close> is missing
  (\<^verbatim>\<open>FileNotFoundError\<close>) or is a file (\<^verbatim>\<open>NotADirectoryError\<close>).
\<close>

definition store :: "filesystem \<Rightarrow> string \<Rightarrow> string \<Rightarrow> error + filesystem" where
  "store fs p data =
     (if refused fs p then Inl PermissionError
      else if is_dir fs p then Inl IsADirectoryError
      else Inr (put fs p (Some (File data))))"

definition write_file :: "filesystem \<Rightarrow> string \<Rightarrow> string \<Rightarrow> error + filesystem" where
  "write_file fs p data =
     (case nodes fs (dirname p) of
        None \<Rightarrow> Inl FileNotFoundError
      | Some (File _) \<Rightarrow> Inl NotADirectoryError
      | Some Dir \<Rightarrow> store fs p data)"

text \<open>\<^verbatim>\<open>Path.unlink()\<close>.\<close>

definition unlink :: "filesystem \<Rightarrow> string \<Rightarrow> error + filesystem" where
  "unlink fs p =
     (case nodes fs p of
        None \<Rightarrow> Inl FileNotFoundError
      | Some Dir \<Rightarrow> Inl IsADirectoryError
      | Some (File _) \<Rightarrow> if refused fs p then Inl PermissionError else Inr (put fs p None))"

text \<open>\<^verbatim>\<open>shutil.rmtree(p)\<close>: the directory and everything below it.\<close>

definition below :: "string \<Rightarrow> string \<Rightarrow> bool" where
  "below d p = (p = d \<or> startswith p (d @ ''/''))"

definition rmtree :: "filesystem \<Rightarrow> string \<Rightarrow> error + filesystem" where
  "rmtree fs d =
     (if \<not> is_dir fs d then Inl NotADirectoryError
      else if refused fs d then Inl PermissionError
      else Inr (fs\<lparr>nodes := (\<lambda>p. if below d p then None else nodes fs p)\<rparr>))"

text \<open>
  \<^verbatim>\<open>shutil.copy2(src, dst)\<close>: into the directory when \<open>dst\<close> is one, else onto
  \<open>dst\<close>, replacing a file that is there. The directory of the target must exist; when
  the target lies beside the source it does, as the source is there.
\<close>

definition copy2 :: "filesystem \<Rightarrow> string \<Rightarrow> string \<Rightarrow> error + filesystem" where
  "copy2 fs src dst =
     (let target = (if is_dir fs dst then pjoin dst (basename src) else dst) in
      case nodes fs src of
        None \<Rightarrow> Inl FileNotFoundError
      | Some Dir \<Rightarrow> Inl IsADirectoryError
      | Some (File data) \<Rightarrow>
          if target = src then Inl SameFileError
          else if dirname target = dirname src then store fs target data
          else write_file fs target data)"

text \<open>
  \<^verbatim>\<open>shutil.move(src, dst)\<close>: into the directory when \<open>dst\<close> is one (refusing to replace
  what is there), else a rename, which replaces a file at \<open>dst\<close>. A directory moves with
  everything below it.
\<close>

definition rename :: "filesystem \<Rightarrow> string \<Rightarrow> string \<Rightarrow> error + filesystem" where
  "rename fs src dst =
     (case nodes fs src of
        None \<Rightarrow> Inl FileNotFoundError
      | Some (File data) \<Rightarrow>
          if refused fs src \<or> refused fs dst then Inl PermissionError
          else if is_dir fs dst then Inl IsADirectoryError
          else Inr (put (put fs dst (Some (File data))) src None)
      | Some Dir \<Rightarrow>
          if refused fs src \<or> refused fs dst then Inl PermissionError
          else if exists fs dst then Inl NotADirectoryError
          else Inr (fs\<lparr>nodes := (\<lambda>p. if below dst p then nodes fs (src @ drop (length dst) p)
                                     else if below src p then None else nodes fs p)\<rparr>))"

definition move :: "filesystem \<Rightarrow> string \<Rightarrow> string \<Rightarrow> error + filesystem" where
  "move fs src dst =
     (if is_dir fs dst \<and> src \<noteq> dst then
        (let real_dst = pjoin dst (basename src) in
         if exists fs real_dst then Inl ShutilError else rename fs src real_dst)
      else rename fs src dst)"

text \<open>
  \<^verbatim>\<open>Path.mkdir(parents=True, exist_ok=True)\<close> for the directories \<open>ds\<close>, outermost
  first: each is created unless it is there; a file in the way raises.
\<close>

fun mkdirs :: "filesystem \<Rightarrow> string list \<Rightarrow> error + filesystem" where
  "mkdirs fs [] = Inr fs"
| "mkdirs fs (d # ds) =
     (case nodes fs d of
        Some Dir \<Rightarrow> mkdirs fs ds
      | Some (File _) \<Rightarrow> Inl (if ds = [] then FileExistsError else NotADirectoryError)
      | None \<Rightarrow> if refused fs d then Inl PermissionError else mkdirs (put fs d (Some Dir)) ds)"

section \<open>Patch engine: fetching the build\<close>

text \<open>
  The release listing (\<^verbatim>\<open>response.json()\<close>): \<open>prerelease\<close> is
  \<^verbatim>\<open>release.get("prerelease", False)\<close>, \<open>tag_name\<close> is
  \<^verbatim>\<open>release.get("tag_name")\<close>, and \<open>assets\<close> is \<^verbatim>\<open>release["assets"]\<close>, \<open>None\<close>
  when the key is missing (a \<^verbatim>\<open>KeyError\<close>).
\<close>

record asset =
  asset_name :: string
  browser_download_url :: string

record release =
  prerelease :: bool
  tag_name :: "string option"
  assets :: "asset list option"

text \<open>
  The network: what the listing request returns and the body behind each download URL;
  \<open>None\<close> stands for a request that raises (no connection, an HTTP error status, a body
  that is not JSON).
\<close>

record network =
  releases_json :: "release list option"
  body :: "string \<Rightarrow> string option"

definition is_archive :: "asset \<Rightarrow> bool" where
  "is_archive a = (endswith (asset_name a) ''.zip'' \<or> endswith (asset_name a) ''.7z'')"

definition is_nightly :: "release \<Rightarrow> bool" where
  "is_nightly r = (prerelease r \<or> tag_name r = Some ''nightly'')"

text \<open>The body of both asset loops once an archive is found: download, save, return the path.\<close>

definition download_asset ::
  "network \<Rightarrow> string \<Rightarrow> filesystem \<Rightarrow> asset \<Rightarrow> error + (string \<times> filesystem)" where
  "download_asset net config_dir fs a =
     (case body net (browser_download_url a) of
        None \<Rightarrow> Inl RequestException
      | Some content \<Rightarrow>
          (let download_path = pjoin config_dir (asset_name a) in
           case write_file fs download_path content of
             Inl e \<Rightarrow> Inl e
           | Inr fs' \<Rightarrow> Inr (download_path, fs')))"

text \<open>\<^verbatim>\<open>for asset in release["assets"]: if asset["name"].endswith(...)\<close>: the first archive.\<close>

fun first_archive :: "asset list \<Rightarrow> asset option" where
  "first_archive [] = None"
| "first_archive (a # rest) = (if is_archive a then Some a else first_archive rest)"

text \<open>
  The first loop of \<^verbatim>\<open>download_latest_nightly\<close>: over all releases, and inside each
  nightly one over its assets; it is left at the first archive found.
\<close>

fun nightly_archive :: "release list \<Rightarrow> error + asset option" where
  "nightly_archive [] = Inr None"
| "nightly_archive (r # rest) =
     (if is_nightly r then
        (case assets r of
           None \<Rightarrow> Inl KeyError
         | Some as \<Rightarrow>
             (case first_archive as of
                Some a \<Rightarrow> Inr (Some a)
              | None \<Rightarrow> nightly_archive rest))
      else nightly_archive rest)"

text \<open>
  \<^verbatim>\<open>download_latest_nightly\<close>. Every exception is caught by the outer
  \<^verbatim>\<open>except Exception\<close> and gives \<^verbatim>\<open>None\<close>.
\<close>

definition try_download ::
  "network \<Rightarrow> string \<Rightarrow> filesystem \<Rightarrow> asset \<Rightarrow> string option \<times> filesystem" where
  "try_download net config_dir fs a =
     (case download_asset net config_dir fs a of
        Inl e \<Rightarrow> (None, fs)
      | Inr (p, fs') \<Rightarrow> (Some p, fs'))"

definition download_latest_nightly ::
  "network \<Rightarrow> string \<Rightarrow> filesystem \<Rightarrow> string option \<times> filesystem" where
  "download_latest_nightly net config_dir fs =
     (case releases_json net of
        None \<Rightarrow> (None, fs)
      | Some releases \<Rightarrow>
          (case nightly_archive releases of
             Inl e \<Rightarrow> (None, fs)
           | Inr (Some a) \<Rightarrow> try_download net config_dir fs a
           | Inr None \<Rightarrow>
               (case releases of
                  [] \<Rightarrow> (None, fs)
                | latest_release # _ \<Rightarrow>
                    (case assets latest_release of
                       None \<Rightarrow> (None, fs)
                     | Some as \<Rightarrow>
                         (case first_archive as of
                            Some a \<Rightarrow> try_download net config_dir fs a
                          | None \<Rightarrow> (None, fs))))))"

text \<open>
  The selection as the specification words it (section 4.4, \<open>fetch_latest_build\<close>): one
  release is chosen, the first nightly one or else the first of the listing, and the
  archive is looked for in that release only.
\<close>

definition spec_chosen_release :: "release list \<Rightarrow> release option" where
  "spec_chosen_release releases =
     (case find is_nightly releases of
        Some r \<Rightarrow> Some r
      | None \<Rightarrow> (case releases of [] \<Rightarrow> None | r # _ \<Rightarrow> Some r))"

definition spec_fetch_latest_build ::
  "network \<Rightarrow> string \<Rightarrow> filesystem \<Rightarrow> string option \<times> filesystem" where
  "spec_fetch_latest_build net config_dir fs =
     (case releases_json net of
        None \<Rightarrow> (None, fs)
      | Some releases \<Rightarrow>
          (case spec_chosen_release releases of
             None \<Rightarrow> (None, fs)
           | Some r \<Rightarrow>
               (case assets r of
                  None \<Rightarrow> (None, fs)
                | Some as \<Rightarrow>
                    (case first_archive as of
                       Some a \<Rightarrow> try_download net config_dir fs a
                     | None \<Rightarrow> (None, fs)))))"

text \<open>A sample: a file system with the configuration directory \<^verbatim>\<open>/cfg\<close> and nothing else.\<close>

definition sample_config :: filesystem where
  "sample_config = \<lparr>nodes = map_of [(''/cfg'', Dir)], refused = (\<lambda>p. False)\<rparr>"

text \<open>The archives of a release, in order (none when the release has no asset list).\<close>

definition archives :: "release \<Rightarrow> asset list" where
  "archives r = (case assets r of None \<Rightarrow> [] | Some as \<Rightarrow> filter is_archive as)"

section \<open>Patch engine: backup and restore\<close>

definition files_to_backup :: "string list" where
  "files_to_backup =
     [''nvngx.dll'', ''libxess.dll'', ''amd_fidelityfx_fsr2.dll'',
      ''amd_fidelityfx_fsr3.dll'', ''ffx_fsr2_api_x64.dll'']"

text \<open>\<^verbatim>\<open>d[k] = v\<close> on a dict kept as an association list in insertion order.\<close>

fun dict_set :: "('k \<times> 'v) list \<Rightarrow> 'k \<Rightarrow> 'v \<Rightarrow> ('k \<times> 'v) list" where
  "dict_set [] k v = [(k, v)]"
| "dict_set ((k', v') # d) k v = (if k' = k then (k, v) # d else (k', v') # dict_set d k v)"

definition backup_name :: "string \<Rightarrow> string" where
  "backup_name filename = filename @ ''.optiscaler_backup''"

text \<open>The loop of \<^verbatim>\<open>backup_original_files\<close>; an exception of \<^verbatim>\<open>copy2\<close> is not caught.\<close>

fun backup_loop ::
  "string \<Rightarrow> string list \<Rightarrow> (string \<times> string) list \<Rightarrow> filesystem \<Rightarrow>
   error + ((string \<times> string) list \<times> filesystem)" where
  "backup_loop target_dir [] backup_map fs = Inr (backup_map, fs)"
| "backup_loop target_dir (filename # rest) backup_map fs =
     (let original_file = pjoin target_dir filename in
      if exists fs original_file then
        (let backup_file = pjoin target_dir (backup_name filename) in
         case copy2 fs original_file backup_file of
           Inl e \<Rightarrow> Inl e
         | Inr fs' \<Rightarrow> backup_loop target_dir rest (dict_set backup_map filename backup_file) fs')
      else backup_loop target_dir rest backup_map fs)"

definition backup_original_files ::
  "filesystem \<Rightarrow> string \<Rightarrow> error + ((string \<times> string) list \<times> filesystem)" where
  "backup_original_files fs target_dir = backup_loop target_dir files_to_backup [] fs"

text \<open>
  The restore loop of \<^verbatim>\<open>uninstall_optiscaler\<close>:
  \<^verbatim>\<open>for original_name, backup_path in install_info.get("backup_files", {}).items()\<close>.
\<close>

fun restore_loop :: "string \<Rightarrow> (string \<times> string) list \<Rightarrow> filesystem \<Rightarrow> error + filesystem" where
  "restore_loop install_path [] fs = Inr fs"
| "restore_loop install_path ((original_name, backup_path) # rest) fs =
     (if exists fs backup_path then
        (case move fs backup_path (pjoin install_path original_name) of
           Inl e \<Rightarrow> Inl e
         | Inr fs' \<Rightarrow> restore_loop install_path rest fs')
      else restore_loop install_path rest fs)"

section \<open>Patch engine: the configuration file\<close>

definition ini_content :: string where
  "ini_content =
     ''[OptiScaler]\<newline>Fsr4Update=true\<newline>Dx12Upscaler=auto\<newline>ColorResourceBarrier=auto\<newline>MotionVectorResourceBarrier=auto\<newline>OverrideNvapiDll=auto\<newline>''"

definition is_fsr4_line :: "string \<Rightarrow> bool" where
  "is_fsr4_line line = startswith (strip line) ''Fsr4Update=''"

text \<open>
  The first loop over the lines: the first line that sets the key is replaced;
  \<open>None\<close> when there is none (\<^verbatim>\<open>fsr4_found\<close> stays false).
\<close>

fun rewrite_first :: "string list \<Rightarrow> string list option" where
  "rewrite_first [] = None"
| "rewrite_first (line # rest) =
     (if is_fsr4_line line then Some (''Fsr4Update=true\<newline>'' # rest)
      else map_option ((#) line) (rewrite_first rest))"

text \<open>
  The second loop, over \<^verbatim>\<open>enumerate(lines)\<close> with \<open>n = len(lines)\<close>: the position of
  the insertion, \<open>None\<close> when the loop ends without \<^verbatim>\<open>break\<close>.
\<close>

fun insert_pos :: "nat \<Rightarrow> bool \<Rightarrow> nat \<Rightarrow> string list \<Rightarrow> nat option" where
  "insert_pos n in_optiscaler_section i [] = None"
| "insert_pos n in_optiscaler_section i (line # rest) =
     (if strip line = ''[OptiScaler]'' then insert_pos n True (Suc i) rest
      else if in_optiscaler_section \<and> (startswith line ''['' \<or> i = n - 1) then
        Some (if startswith line ''['' then i else i + 1)
      else insert_pos n in_optiscaler_section (Suc i) rest)"

definition list_insert :: "'a list \<Rightarrow> nat \<Rightarrow> 'a \<Rightarrow> 'a list" where
  "list_insert xs pos x = take pos xs @ [x] @ drop pos xs"

definition update_lines :: "string list \<Rightarrow> string list" where
  "update_lines lines =
     (case rewrite_first lines of
        Some lines' \<Rightarrow> lines'
      | None \<Rightarrow>
          (case insert_pos (length lines) False 0 lines of
             Some pos \<Rightarrow> list_insert lines pos ''Fsr4Update=true\<newline>''
           | None \<Rightarrow> lines @ [''\<newline>[OptiScaler]\<newline>Fsr4Update=true\<newline>'']))"

text \<open>
  The document after the step, from the document before it (\<open>None\<close>: the file is not
  there). The text is what \<^verbatim>\<open>open(ini_path, 'r')\<close> delivers.
\<close>

definition configure_text :: "string option \<Rightarrow> string" where
  "configure_text doc =
     (case doc of
        None \<Rightarrow> ini_content
      | Some text \<Rightarrow> writelines (update_lines (readlines text)))"

text \<open>
  The text that \<^verbatim>\<open>open(ini_path, 'r')\<close> delivers for the content of a file: in text
  mode a carriage return with its line feed, and a carriage return alone, are read as
  one line feed.
\<close>

fun universal_newlines :: "string \<Rightarrow> string" where
  "universal_newlines [] = []"
| "universal_newlines [c] = [if c = CHR 0x0D then CHR 0x0A else c]"
| "universal_newlines (c # d # cs) =
     (if c = CHR 0x0D \<and> d = CHR 0x0A then CHR 0x0A # universal_newlines cs
      else if c = CHR 0x0D then CHR 0x0A # universal_newlines (d # cs)
      else c # universal_newlines (d # cs))"

definition configure_optiscaler_ini :: "filesystem \<Rightarrow> string \<Rightarrow> error + filesystem" where
  "configure_optiscaler_ini fs install_dir =
     (let ini_path = pjoin install_dir ''OptiScaler.ini'' in
      case nodes fs ini_path of
        None \<Rightarrow> write_file fs ini_path (configure_text None)
      | Some Dir \<Rightarrow> Inl IsADirectoryError
      | Some (File content) \<Rightarrow>
          write_file fs ini_path (configure_text (Some (universal_newlines content))))"

text \<open>
  Well-formed line lists, as \<^verbatim>\<open>readlines\<close> produces them: no line is empty, a line
  feed stands only at the end of a line, and every line but the last ends in one. The
  position of the first line that sets the key.
\<close>

definition line_ok :: "string \<Rightarrow> bool" where
  "line_ok l = (l \<noteq> [] \<and> CHR 0x0A \<notin> set (butlast l))"

fun wf_lines :: "string list \<Rightarrow> bool" where
  "wf_lines [] = True"
| "wf_lines [l] = line_ok l"
| "wf_lines (l # ls) = (line_ok l \<and> last l = CHR 0x0A \<and> wf_lines ls)"

definition first_fsr4 :: "string list \<Rightarrow> nat" where
  "first_fsr4 ls = length (takeWhile (\<lambda>l. \<not> is_fsr4_line l) ls)"

section \<open>Executable candidate ranker\<close>

text \<open>
  \<^verbatim>\<open>Path(s).parts\<close> of a POSIX path string, and the string of a tuple of parts.
\<close>

definition path_parts :: "string \<Rightarrow> string list" where
  "path_parts s =
     (let comps = filter (\<lambda>c. c \<noteq> [] \<and> c \<noteq> ''.'') (split_on CHR ''/'' s) in
      if startswith s ''//'' \<and> \<not> startswith s ''///'' then ''//'' # comps
      else if startswith s ''/'' then ''/'' # comps
      else comps)"

fun join_slash :: "string list \<Rightarrow> string" where
  "join_slash [] = []"
| "join_slash [c] = c"
| "join_slash (c # cs) = c @ ''/'' @ join_slash cs"

definition parts_str :: "string list \<Rightarrow> string" where
  "parts_str ps =
     (case ps of
        [] \<Rightarrow> ''.''
      | r # cs \<Rightarrow> if r = ''/'' \<or> r = ''//'' then r @ join_slash cs else join_slash ps)"

text \<open>
  \<^verbatim>\<open>str(Path(p).relative_to(Path(g)))\<close>; \<open>None\<close> is the \<^verbatim>\<open>ValueError\<close> for a path
  that does not lie under \<open>g\<close>.
\<close>

definition relative_to :: "string \<Rightarrow> string \<Rightarrow> string option" where
  "relative_to p g =
     (if prefix (path_parts g) (path_parts p)
      then Some (parts_str (drop (length (path_parts g)) (path_parts p)))
      else None)"

text \<open>
  One path of \<^verbatim>\<open>game_dir.rglob("*.exe")\<close>: \<open>parent\<close> is
  \<^verbatim>\<open>str(exe_file.parent)\<close>, \<open>name\<close> is \<^verbatim>\<open>exe_file.name\<close>, \<open>is_file\<close> is
  \<^verbatim>\<open>exe_file.is_file()\<close>. The listing is the list of these paths in the order of the
  traversal.
\<close>

record exe_file =
  parent :: string
  name :: string
  is_file :: bool

text \<open>The dict \<^verbatim>\<open>location_info\<close>; \<open>exe_type\<close> is its key \<^verbatim>\<open>"type"\<close>.\<close>

record location_info =
  path :: string
  exe_name :: string
  exe_type :: string
  priority :: nat
  relative_path :: string

definition skip_paths :: "string list" where
  "skip_paths = [''engine'', ''redist'', ''directx'', ''vcredist'', ''_commonredist'', ''tools'', ''crash'']"

definition skip_names :: "string list" where
  "skip_names = [''unins'', ''setup'', ''launcher'', ''redist'', ''vcredist'', ''directx'', ''crash'']"

definition common_folders :: "string list" where
  "common_folders = [''bin/x64'', ''retail'', ''binaries/win64'']"

text \<open>
  The exclusion test and the \<^verbatim>\<open>if\<close>/\<^verbatim>\<open>elif\<close> chain of the loop body: the type and
  the priority, or \<open>None\<close> for \<^verbatim>\<open>continue\<close>. \<open>game_dir\<close> is \<^verbatim>\<open>str(game_dir)\<close>.
\<close>

definition classify :: "string \<Rightarrow> exe_file \<Rightarrow> (string \<times> nat) option" where
  "classify game_dir exe_file =
     (let path_str = lower (parent exe_file); name_str = lower (name exe_file) in
      if any_in skip_paths path_str \<or> any_in skip_names name_str then None
      else if parent exe_file = game_dir then Some (''Main Game Directory'', 1)
      else if contains ''_shipping'' name_str then Some (''Shipping Executable (UE)'', 1)
      else if any_in common_folders (lower (parent exe_file)) then Some (''Common Game Folder'', 2)
      else if contains ''ue4'' name_str \<or> contains ''ue5'' name_str then None
      else Some (''Other'', 3))"

text \<open>
  The loop body up to \<^verbatim>\<open>location_info\<close>: \<open>None\<close> for \<^verbatim>\<open>continue\<close>, \<open>Some (Inl e)\<close>
  for a raise of \<^verbatim>\<open>relative_to\<close>.
\<close>

definition location_of :: "string \<Rightarrow> exe_file \<Rightarrow> (error + location_info) option" where
  "location_of game_dir exe_file =
     (if \<not> is_file exe_file then None
      else case classify game_dir exe_file of
        None \<Rightarrow> None
      | Some (ty, prio) \<Rightarrow>
          Some (case relative_to (parent exe_file) game_dir of
                  None \<Rightarrow> Inl ValueError
                | Some rel \<Rightarrow>
                    Inr \<lparr>path = parent exe_file, exe_name = name exe_file, exe_type = ty,
                         priority = prio, relative_path = rel\<rparr>))"

text \<open>
  The end of the loop body: the first entry with the same \<open>path\<close> is \<^verbatim>\<open>existing\<close>; it is
  overwritten in place when the new priority is smaller; with no such entry the new one
  is appended.
\<close>

fun add_location :: "location_info \<Rightarrow> location_info list \<Rightarrow> location_info list" where
  "add_location location_info [] = [location_info]"
| "add_location location_info (loc # locs) =
     (if path loc = path location_info then
        (if priority location_info < priority loc then location_info # locs else loc # locs)
      else loc # add_location location_info locs)"

fun scan :: "string \<Rightarrow> exe_file list \<Rightarrow> location_info list \<Rightarrow> error + location_info list" where
  "scan game_dir [] exe_locations = Inr exe_locations"
| "scan game_dir (exe_file # rest) exe_locations =
     (case location_of game_dir exe_file of
        None \<Rightarrow> scan game_dir rest exe_locations
      | Some (Inl e) \<Rightarrow> Inl e
      | Some (Inr location_info) \<Rightarrow> scan game_dir rest (add_location location_info exe_locations))"

text \<open>The sort key \<^verbatim>\<open>(x["priority"], len(Path(x["path"]).parts), x["path"])\<close>.\<close>

definition location_key :: "location_info \<Rightarrow> nat \<times> nat \<times> string" where
  "location_key x = (priority x, length (path_parts (path x)), path x)"

definition find_game_executable_paths :: "string \<Rightarrow> exe_file list \<Rightarrow> error + location_info list" where
  "find_game_executable_paths game_dir listing =
     (case scan game_dir listing [] of
        Inl e \<Rightarrow> Inl e
      | Inr exe_locations \<Rightarrow> Inr (sort_key location_key exe_locations))"

text \<open>
  The candidates of a listing: the \<^verbatim>\<open>location_info\<close> of every path that is not
  skipped, in the order of the listing.
\<close>

definition accepted :: "string \<Rightarrow> exe_file list \<Rightarrow> location_info list" where
  "accepted game_dir listing =
     List.map_filter (\<lambda>e. case location_of game_dir e of Some (Inr l) \<Rightarrow> Some l | _ \<Rightarrow> None) listing"

text \<open>A candidate without the name of its executable.\<close>

definition without_exe_name :: "location_info \<Rightarrow> string \<times> string \<times> nat \<times> string" where
  "without_exe_name l = (path l, exe_type l, priority l, relative_path l)"

text \<open>
  For the proofs: whether the loop raises, the loop over the candidates alone, and the sort
  key read from a candidate without its executable's name.
\<close>

definition raises :: "string \<Rightarrow> exe_file list \<Rightarrow> bool" where
  "raises game_dir listing = (\<exists>e\<in>set listing. \<exists>err. location_of game_dir e = Some (Inl err))"

definition dedupe :: "location_info list \<Rightarrow> location_info list \<Rightarrow> location_info list" where
  "dedupe acc cs = foldl (\<lambda>acc l. add_location l acc) acc cs"

definition stripped_key :: "string \<times> string \<times> nat \<times> string \<Rightarrow> nat \<times> nat \<times> string" where
  "stripped_key t = (fst (snd (snd t)), length (path_parts (fst t)), fst t)"

section \<open>Library and game locator\<close>

text \<open>
  The dict of a game; \<open>game_name\<close> is its key \<^verbatim>\<open>"name"\<close> and \<open>game_path\<close> its key
  \<^verbatim>\<open>"path"\<close>.
\<close>

record game =
  app_id :: string
  game_name :: string
  install_dir :: string
  game_path :: string
  library_path :: string

text \<open>\<^verbatim>\<open>line.split('"')[3]\<close>; \<open>None\<close> is the \<^verbatim>\<open>IndexError\<close>.\<close>

definition quoted_value :: "string \<Rightarrow> string option" where
  "quoted_value line =
     (let pieces = split_on (CHR 0x22) line in
      if 3 < length pieces then Some (pieces ! 3) else None)"

definition quoted :: "string \<Rightarrow> string" where
  "quoted s = CHR 0x22 # s @ [CHR 0x22]"

definition key_appid :: string where
  "key_appid = quoted ''appid''"

definition key_name :: string where
  "key_name = quoted ''name''"

definition key_installdir :: string where
  "key_installdir = quoted ''installdir''"

text \<open>
  The loop over \<^verbatim>\<open>content.split('\n')\<close>, with the three variables \<^verbatim>\<open>app_id\<close>,
  \<^verbatim>\<open>name\<close> and \<^verbatim>\<open>install_dir\<close> (\<open>None\<close> at the start), here \<open>appid\<close>,
  \<open>gname\<close> and \<open>installdir\<close>.
\<close>

fun parse_lines ::
  "string list \<Rightarrow> string option \<times> string option \<times> string option \<Rightarrow>
   error + (string option \<times> string option \<times> string option)" where
  "parse_lines [] vars = Inr vars"
| "parse_lines (raw # rest) (appid, gname, installdir) =
     (let line = strip raw in
      if startswith line key_appid then
        (case quoted_value line of
           None \<Rightarrow> Inl IndexError
         | Some v \<Rightarrow> parse_lines rest (Some v, gname, installdir))
      else if startswith line key_name then
        (case quoted_value line of
           None \<Rightarrow> Inl IndexError
         | Some v \<Rightarrow> parse_lines rest (appid, Some v, installdir))
      else if startswith line key_installdir then
        (case quoted_value line of
           None \<Rightarrow> Inl IndexError
         | Some v \<Rightarrow> parse_lines rest (appid, gname, Some v))
      else parse_lines rest (appid, gname, installdir))"

text \<open>The truth value of an optional string: \<^verbatim>\<open>None\<close> and the empty string are false.\<close>

definition truthy :: "string option \<Rightarrow> bool" where
  "truthy v = (case v of None \<Rightarrow> False | Some s \<Rightarrow> s \<noteq> [])"

text \<open>
  The record a manifest file yields: \<open>None\<close> when the file cannot be read, a line raises,
  a value is missing or empty, or the install path does not exist.
\<close>

definition manifest_game :: "filesystem \<Rightarrow> string \<Rightarrow> string \<Rightarrow> game option" where
  "manifest_game fs lib manifest_file =
     (case nodes fs manifest_file of
        Some (File content) \<Rightarrow>
          (case parse_lines (split_on CHR ''\<newline>'' content) (None, None, None) of
             Inl e \<Rightarrow> None
           | Inr (appid, gname, installdir) \<Rightarrow>
               if truthy appid \<and> truthy gname \<and> truthy installdir then
                 (let p = pjoin (pjoin (pjoin lib ''steamapps'') ''common'') (the installdir) in
                  if exists fs p then
                    Some \<lparr>app_id = the appid, game_name = the gname, install_dir = the installdir,
                          game_path = p, library_path = lib\<rparr>
                  else None)
               else None)
      | _ \<Rightarrow> None)"

text \<open>
  \<^verbatim>\<open>for i, game in enumerate(games): if game["app_id"] == app_id: games[i] = ...; break\<close>.
\<close>

fun replace_first :: "string \<Rightarrow> game \<Rightarrow> game list \<Rightarrow> game list" where
  "replace_first a new [] = []"
| "replace_first a new (g # gs) =
     (if app_id g = a then new # gs else g # replace_first a new gs)"

text \<open>
  What the loop body does with the record of a manifest: appended when its
  \<^verbatim>\<open>app_id\<close> is new, put in the place of the existing record when its install path is
  strictly newer; \<open>st_mtime\<close> gives \<^verbatim>\<open>Path(p).stat().st_mtime\<close>, \<open>None\<close> for an
  \<^verbatim>\<open>OSError\<close>, which is passed over. The time stamps are values of any linear order.
\<close>

definition add_game :: "(string \<Rightarrow> 't::linorder option) \<Rightarrow> game \<Rightarrow> game list \<Rightarrow> game list" where
  "add_game st_mtime new games =
     (case find (\<lambda>g. app_id g = app_id new) games of
        None \<Rightarrow> games @ [new]
      | Some existing_game \<Rightarrow>
          (case st_mtime (game_path existing_game) of
             None \<Rightarrow> games
           | Some existing_mtime \<Rightarrow>
               (case st_mtime (game_path new) of
                  None \<Rightarrow> games
                | Some current_mtime \<Rightarrow>
                    if current_mtime > existing_mtime then replace_first (app_id new) new games
                    else games)))"

text \<open>The loop over the manifest files of one library, and the loop over the libraries.\<close>

fun scan_manifests ::
  "filesystem \<Rightarrow> (string \<Rightarrow> 't::linorder option) \<Rightarrow> string \<Rightarrow> string list \<Rightarrow> game list \<Rightarrow> game list" where
  "scan_manifests fs st_mtime lib [] games = games"
| "scan_manifests fs st_mtime lib (manifest_file # rest) games =
     (case manifest_game fs lib manifest_file of
        None \<Rightarrow> scan_manifests fs st_mtime lib rest games
      | Some new \<Rightarrow> scan_manifests fs st_mtime lib rest (add_game st_mtime new games))"

text \<open>
  A library is its path with the result of
  \<^verbatim>\<open>safe_case_insensitive_glob(steamapps_path, "appmanifest_*.acf")\<close>, in its order.
\<close>

fun scan_libraries ::
  "filesystem \<Rightarrow> (string \<Rightarrow> 't::linorder option) \<Rightarrow> (string \<times> string list) list \<Rightarrow> game list \<Rightarrow>
   game list" where
  "scan_libraries fs st_mtime [] games = games"
| "scan_libraries fs st_mtime ((lib, manifest_files) # rest) games =
     (if \<not> exists fs (pjoin lib ''steamapps'') then scan_libraries fs st_mtime rest games
      else scan_libraries fs st_mtime rest (scan_manifests fs st_mtime lib manifest_files games))"

definition get_steam_games ::
  "string option \<Rightarrow> filesystem \<Rightarrow> (string \<Rightarrow> 't::linorder option) \<Rightarrow> (string \<times> string list) list \<Rightarrow>
   game list" where
  "get_steam_games steam_path fs st_mtime steam_libraries =
     (case steam_path of
        None \<Rightarrow> []
      | Some _ \<Rightarrow> sort_key game_name (scan_libraries fs st_mtime steam_libraries []))"

text \<open>The records that the manifests of all libraries yield, in the order of the scan.\<close>

fun discovered :: "filesystem \<Rightarrow> (string \<times> string list) list \<Rightarrow> game list" where
  "discovered fs [] = []"
| "discovered fs ((lib, manifest_files) # rest) =
     (if \<not> exists fs (pjoin lib ''steamapps'') then discovered fs rest
      else List.map_filter (manifest_game fs lib) manifest_files @ discovered fs rest)"

text \<open>The loop body applied to a list of records, one after the other.\<close>

definition add_games :: "(string \<Rightarrow> 't::linorder option) \<Rightarrow> game list \<Rightarrow> game list \<Rightarrow> game list" where
  "add_games st_mtime games news = foldl (\<lambda>games new. add_game st_mtime new games) games news"

text \<open>The modification time of the install path of a record, when it is readable.\<close>

definition mtime_of :: "(string \<Rightarrow> 't::linorder option) \<Rightarrow> game \<Rightarrow> 't" where
  "mtime_of st_mtime g = the (st_mtime (game_path g))"

text \<open>
  A sample: the text of a manifest file, and two libraries that both hold the game 440,
  the copy on the external drive being the newer one.
\<close>

definition acf_line :: "string \<Rightarrow> string \<Rightarrow> string" where
  "acf_line k v = CHR 0x09 # quoted k @ [CHR 0x09, CHR 0x09] @ quoted v @ ''\<newline>''"

definition acf :: "string \<Rightarrow> string \<Rightarrow> string \<Rightarrow> string" where
  "acf a n d =
     quoted ''AppState'' @ ''\<newline>{\<newline>'' @ acf_line ''appid'' a @ acf_line ''name'' n @
     acf_line ''installdir'' d @ ''}\<newline>''"

definition sample_fs :: filesystem where
  "sample_fs =
     \<lparr>nodes = map_of
        [(''/steam/steamapps'', Dir),
         (''/steam/steamapps/appmanifest_440.acf'', File (acf ''440'' ''Team Fortress 2'' ''tf2'')),
         (''/steam/steamapps/common/tf2'', Dir),
         (''/mnt/ext/steamapps'', Dir),
         (''/mnt/ext/steamapps/appmanifest_440.acf'', File (acf ''440'' ''Team Fortress 2'' ''tf2'')),
         (''/mnt/ext/steamapps/common/tf2'', Dir)],
      refused = (\<lambda>p. False)\<rparr>"

definition sample_mtime :: "string \<Rightarrow> nat option" where
  "sample_mtime =
     map_of [(''/steam/steamapps/common/tf2'', 100), (''/mnt/ext/steamapps/common/tf2'', 200)]"

definition sample_libraries :: "(string \<times> string list) list" where
  "sample_libraries =
     [(''/steam'', [''/steam/steamapps/appmanifest_440.acf'']),
      (''/mnt/ext'', [''/mnt/ext/steamapps/appmanifest_440.acf''])]"

text \<open>
  For the proofs: file names that are single path components, pairwise different, none
  of them the backup name of another. A sample target directory with two of the vendor
  files.
\<close>

definition plain_names :: "string list \<Rightarrow> bool" where
  "plain_names ns =
     (distinct ns \<and> (\<forall>n\<in>set ns. CHR ''/'' \<notin> set n) \<and>
      (\<forall>n\<in>set ns. \<forall>n'\<in>set ns. n \<noteq> backup_name n'))"

definition sample_target :: filesystem where
  "sample_target =
     \<lparr>nodes = map_of
        [(''/games/Foo'', Dir),
         (''/games/Foo/nvngx.dll'', File ''NV''),
         (''/games/Foo/libxess.dll'', File ''XE''),
         (''/games/Foo/Foo.exe'', File ''MZ'')],
      refused = (\<lambda>p. False)\<rparr>"

section \<open>Auxiliary asset manager\<close>

text \<open>
  The manager with its cached path \<^verbatim>\<open>self.fsr4_dll_path\<close>, and the answers of the
  operator to the prompts of the selection: \<open>version_choice\<close> is
  \<^verbatim>\<open>int(input(...))\<close> (\<open>None\<close> for a \<^verbatim>\<open>ValueError\<close>), \<open>custom_answer\<close> the answer to
  the question for a custom path, \<open>custom_path\<close> the path typed in.
\<close>

record fsr_manager =
  config_dir :: string
  fsr4_dll_path :: "string option"

record operator =
  version_choice :: "int option"
  custom_answer :: string
  custom_path :: string

definition active_dll :: "fsr_manager \<Rightarrow> string" where
  "active_dll mgr = pjoin (config_dir mgr) ''amdxcffx64.dll''"

text \<open>\<^verbatim>\<open>download_fsr4_dll\<close>; an exception of the copy is caught and gives \<^verbatim>\<open>False\<close>.\<close>

definition download_fsr4_dll ::
  "fsr_manager \<Rightarrow> filesystem \<Rightarrow> operator \<Rightarrow> bool \<times> fsr_manager \<times> filesystem" where
  "download_fsr4_dll mgr fs op =
     (if lower (custom_answer op) = ''y'' then
        (let source_dll = strip (custom_path op) in
         if exists fs source_dll then
           (case copy2 fs source_dll (active_dll mgr) of
              Inl e \<Rightarrow> (False, mgr, fs)
            | Inr fs' \<Rightarrow> (True, mgr\<lparr>fsr4_dll_path := Some (active_dll mgr)\<rparr>, fs'))
         else (False, mgr, fs))
      else (False, mgr, fs))"

text \<open>
  \<^verbatim>\<open>select_fsr4_version\<close>; \<open>versions\<close> is
  \<^verbatim>\<open>list(self.find_available_fsr4_versions().items())\<close>. The \<^verbatim>\<open>try\<close> catches
  \<^verbatim>\<open>ValueError\<close> and \<^verbatim>\<open>IndexError\<close> only, so an exception of the copy leaves the
  function.
\<close>

definition select_fsr4_version ::
  "fsr_manager \<Rightarrow> filesystem \<Rightarrow> (string \<times> string) list \<Rightarrow> operator \<Rightarrow>
   error + (bool \<times> fsr_manager \<times> filesystem)" where
  "select_fsr4_version mgr fs versions op =
     (if versions = [] then Inr (download_fsr4_dll mgr fs op)
      else case version_choice op of
        None \<Rightarrow> Inr (False, mgr, fs)
      | Some choice \<Rightarrow>
          if 1 \<le> choice \<and> choice \<le> int (length versions) then
            (let selected_path = snd (versions ! nat (choice - 1)) in
             case copy2 fs selected_path (active_dll mgr) of
               Inl e \<Rightarrow> Inl e
             | Inr fs' \<Rightarrow> Inr (True, mgr\<lparr>fsr4_dll_path := Some (active_dll mgr)\<rparr>, fs'))
          else if choice = int (length versions) + 1 then Inr (download_fsr4_dll mgr fs op)
          else Inr (False, mgr, fs))"

text \<open>
  \<^verbatim>\<open>not self.fsr4_dll_path or not self.fsr4_dll_path.exists()\<close>, the directories that
  \<^verbatim>\<open>system32_path.mkdir(parents=True, exist_ok=True)\<close> goes through, and the copy of
  the active asset (with no path the call raises a \<^verbatim>\<open>TypeError\<close>, here \<open>ValueError\<close>).
\<close>

definition asset_missing :: "fsr_manager \<Rightarrow> filesystem \<Rightarrow> bool" where
  "asset_missing mgr fs = (case fsr4_dll_path mgr of None \<Rightarrow> True | Some p \<Rightarrow> \<not> exists fs p)"

definition system32_path :: "string \<Rightarrow> string" where
  "system32_path compatdata_path =
     pjoin (pjoin (pjoin (pjoin compatdata_path ''pfx'') ''drive_c'') ''windows'') ''system32''"

definition system32_chain :: "string \<Rightarrow> string list" where
  "system32_chain compatdata_path =
     [compatdata_path,
      pjoin compatdata_path ''pfx'',
      pjoin (pjoin compatdata_path ''pfx'') ''drive_c'',
      pjoin (pjoin (pjoin compatdata_path ''pfx'') ''drive_c'') ''windows'',
      system32_path compatdata_path]"

definition target_dll :: "string \<Rightarrow> string" where
  "target_dll compatdata_path = pjoin (system32_path compatdata_path) ''amdxcffx64.dll''"

definition copy_asset :: "fsr_manager \<Rightarrow> filesystem \<Rightarrow> string \<Rightarrow> error + filesystem" where
  "copy_asset mgr fs dst =
     (case fsr4_dll_path mgr of None \<Rightarrow> Inl ValueError | Some p \<Rightarrow> copy2 fs p dst)"

text \<open>
  The first statement of \<^verbatim>\<open>copy_fsr4_dll_to_compatdata\<close>: with no active asset the
  selection runs and its result decides; else nothing happens.
\<close>

definition ensure_asset ::
  "fsr_manager \<Rightarrow> filesystem \<Rightarrow> (string \<times> string) list \<Rightarrow> operator \<Rightarrow>
   error + (bool \<times> fsr_manager \<times> filesystem)" where
  "ensure_asset mgr fs versions op =
     (if asset_missing mgr fs then select_fsr4_version mgr fs versions op
      else Inr (True, mgr, fs))"

text \<open>
  \<^verbatim>\<open>copy_fsr4_dll_to_compatdata\<close>. Only the copy stands in a \<^verbatim>\<open>try\<close>; an exception of
  the selection or of \<^verbatim>\<open>mkdir\<close> leaves the function.
\<close>

definition copy_fsr4_dll_to_compatdata ::
  "fsr_manager \<Rightarrow> filesystem \<Rightarrow> (string \<times> string) list \<Rightarrow> operator \<Rightarrow> string \<Rightarrow> string \<Rightarrow>
   error + (bool \<times> fsr_manager \<times> filesystem)" where
  "copy_fsr4_dll_to_compatdata mgr fs versions op appid compatdata_path =
     (case ensure_asset mgr fs versions op of
        Inl e \<Rightarrow> Inl e
      | Inr (selected, mgr1, fs1) \<Rightarrow>
          if \<not> selected then Inr (False, mgr1, fs1)
          else
            (case mkdirs fs1 (system32_chain compatdata_path) of
               Inl e \<Rightarrow> Inl e
             | Inr fs2 \<Rightarrow>
                 (case copy_asset mgr1 fs2 (target_dll compatdata_path) of
                    Inl e \<Rightarrow> Inr (False, mgr1, fs2)
                  | Inr fs3 \<Rightarrow> Inr (True, mgr1, fs3))))"

text \<open>\<^verbatim>\<open>remove_fsr4_dll_from_compatdata\<close>; every exception is caught.\<close>

definition remove_fsr4_dll_from_compatdata ::
  "filesystem \<Rightarrow> string \<Rightarrow> string \<Rightarrow> bool \<times> filesystem" where
  "remove_fsr4_dll_from_compatdata fs appid compatdata_path =
     (if exists fs (target_dll compatdata_path) then
        (case unlink fs (target_dll compatdata_path) of
           Inl e \<Rightarrow> (False, fs)
         | Inr fs' \<Rightarrow> (True, fs'))
      else (True, fs))"

text \<open>
  A sample: one bundled version, the configuration directory without an active asset, and
  the compatibility directory of a game.
\<close>

definition sample_assets :: filesystem where
  "sample_assets =
     \<lparr>nodes = map_of
        [(''/home/u/fsr4/FSR 4.0.1'', Dir),
         (''/home/u/fsr4/FSR 4.0.1/amdxcffx64.dll'', File ''DLL''),
         (''/home/u/.config/optiscaler'', Dir),
         (''/steam/steamapps/compatdata/440'', Dir)],
      refused = (\<lambda>p. False)\<rparr>"

definition sample_versions :: "(string \<times> string) list" where
  "sample_versions = [(''FSR 4.0.1'', ''/home/u/fsr4/FSR 4.0.1/amdxcffx64.dll'')]"

definition sample_manager :: fsr_manager where
  "sample_manager = \<lparr>config_dir = ''/home/u/.config/optiscaler'', fsr4_dll_path = None\<rparr>"

definition sample_compatdata :: string where
  "sample_compatdata = ''/steam/steamapps/compatdata/440''"

section \<open>Patch engine: uninstall, and the menu's uninstall branch\<close>

text \<open>
  The installation record \<^verbatim>\<open>install_info\<close> of the ledger. The keys read with
  \<^verbatim>\<open>.get\<close> carry their default when they are missing.
\<close>

record install_info =
  game :: game
  install_path :: string
  exe_location :: location_info
  timestamp :: string
  backup_files :: "(string \<times> string) list"
  zip_source :: string
  fsr4_dll_copied :: bool

text \<open>
  The host: Steam's root (\<^verbatim>\<open>steam_utils.steam_path\<close>), the file system as it is when
  \<^verbatim>\<open>run_optiscaler_removal_script\<close> returns after it found the script at the given
  path, and whether the ledger document can be written. What the vendor script, the
  terminal and the operator do in between is outside the program; every exception
  inside that function is caught there.
\<close>

record host =
  steam_path :: "string option"
  after_script :: "string \<Rightarrow> filesystem \<Rightarrow> filesystem"
  ledger_writable :: bool

definition get_compatdata_path :: "host \<Rightarrow> filesystem \<Rightarrow> string \<Rightarrow> string option" where
  "get_compatdata_path h fs appid =
     (case steam_path h of
        None \<Rightarrow> None
      | Some root \<Rightarrow>
          (let compatdata_path = pjoin (pjoin (pjoin root ''steamapps'') ''compatdata'') appid in
           if exists fs compatdata_path then Some compatdata_path else None))"

definition removal_scripts :: "string list" where
  "removal_scripts =
     [''remove_optiscaler.sh'', ''uninstall_optiscaler.sh'', ''remove.sh'', ''uninstall.sh'']"

definition run_optiscaler_removal_script :: "host \<Rightarrow> filesystem \<Rightarrow> string \<Rightarrow> filesystem" where
  "run_optiscaler_removal_script h fs dir =
     (case find (exists fs) (map (pjoin dir) removal_scripts) of
        None \<Rightarrow> fs
      | Some removal_script \<Rightarrow> after_script h removal_script fs)"

definition optiscaler_files :: "string list" where
  "optiscaler_files =
     [''OptiScaler.dll'', ''OptiScaler.ini'', ''OptiScaler.log'', ''OptiScaler Setup.bat'',
      ''setup_linux.sh'', ''setup_windows.bat'', ''remove_optiscaler.sh'',
      ''dxgi.dll'', ''winmm.dll'', ''version.dll'', ''dbghelp.dll'',
      ''d3d12.dll'', ''wininet.dll'', ''winhttp.dll'', ''OptiScaler.asi'',
      ''nvngx.dll'', ''libxess.dll'', ''amd_fidelityfx_fsr2.dll'',
      ''amd_fidelityfx_fsr3.dll'', ''ffx_fsr2_api_x64.dll'']"

definition optiscaler_dirs :: "string list" where
  "optiscaler_dirs = [''D3D12_Optiscaler'', ''DlssOverrides'', ''Licenses'']"

text \<open>The two cleaning loops; an exception of \<^verbatim>\<open>unlink\<close> or \<^verbatim>\<open>rmtree\<close> is not caught.\<close>

fun unlink_present :: "string \<Rightarrow> string list \<Rightarrow> filesystem \<Rightarrow> error + filesystem" where
  "unlink_present dir [] fs = Inr fs"
| "unlink_present dir (filename # rest) fs =
     (if exists fs (pjoin dir filename) then
        (case unlink fs (pjoin dir filename) of
           Inl e \<Rightarrow> Inl e
         | Inr fs' \<Rightarrow> unlink_present dir rest fs')
      else unlink_present dir rest fs)"

fun rmtree_present :: "string \<Rightarrow> string list \<Rightarrow> filesystem \<Rightarrow> error + filesystem" where
  "rmtree_present dir [] fs = Inr fs"
| "rmtree_present dir (name_of_dir # rest) fs =
     (if exists fs (pjoin dir name_of_dir) \<and> is_dir fs (pjoin dir name_of_dir) then
        (case rmtree fs (pjoin dir name_of_dir) of
           Inl e \<Rightarrow> Inl e
         | Inr fs' \<Rightarrow> rmtree_present dir rest fs')
      else rmtree_present dir rest fs)"

text \<open>The last step: the asset is removed from the compatibility directory; its result is dropped.\<close>

definition remove_asset_step :: "host \<Rightarrow> filesystem \<Rightarrow> install_info \<Rightarrow> filesystem" where
  "remove_asset_step h fs info =
     (if fsr4_dll_copied info then
        (case get_compatdata_path h fs (app_id (game info)) of
           None \<Rightarrow> fs
         | Some compatdata_path \<Rightarrow>
             snd (remove_fsr4_dll_from_compatdata fs (app_id (game info)) compatdata_path))
      else fs)"

text \<open>\<^verbatim>\<open>uninstall_optiscaler\<close>: the returned value and the file system after it.\<close>

definition uninstall_optiscaler ::
  "host \<Rightarrow> filesystem \<Rightarrow> install_info \<Rightarrow> error + (bool \<times> filesystem)" where
  "uninstall_optiscaler h fs info =
     (let fs0 = run_optiscaler_removal_script h fs (install_path info) in
      case unlink_present (install_path info) optiscaler_files fs0 of
        Inl e \<Rightarrow> Inl e
      | Inr fs1 \<Rightarrow>
          (case rmtree_present (install_path info) optiscaler_dirs fs1 of
             Inl e \<Rightarrow> Inl e
           | Inr fs2 \<Rightarrow>
               (case restore_loop (install_path info) (backup_files info) fs2 of
                  Inl e \<Rightarrow> Inl e
                | Inr fs3 \<Rightarrow> Inr (True, remove_asset_step h fs3 info))))"









chapter \<open>Properties\<close>

section \<open>Fetching the build\<close>

lemma first_archive_filter:
  "first_archive as = (case filter is_archive as of [] \<Rightarrow> None | a # _ \<Rightarrow> Some a)"
  by (induction as) auto

lemma nightly_archive_concat:
  "\<forall>r\<in>set rs. assets r \<noteq> None \<Longrightarrow>
   nightly_archive rs =
     Inr (case concat (map archives (filter is_nightly rs)) of [] \<Rightarrow> None | a # _ \<Rightarrow> Some a)"
proof (induction rs)
  case Nil
  then show ?case by simp
next
  case (Cons r rs)
  then obtain as where as: "assets r = Some as" by auto
  show ?case
  proof (cases "is_nightly r")
    case False
    with Cons show ?thesis by simp
  next
    case True
    show ?thesis
    proof (cases "filter is_archive as")
      case Nil
      with True as Cons show ?thesis
        by (simp add: first_archive_filter archives_def)
    next
      case (Cons a list)
      with True as show ?thesis
        by (simp add: first_archive_filter archives_def)
    qed
  qed
qed

text \<open>
  A download that succeeds returns the path of the asset's name under the configuration
  directory, and the file at that path holds the body of the asset's URL.
\<close>

lemma try_download_path:
  "try_download net cfg fs a = (Some p, fs') \<Longrightarrow>
   p = pjoin cfg (asset_name a) \<and>
   (\<exists>content. body net (browser_download_url a) = Some content \<and>
      nodes fs' p = Some (File content))"
  by (auto simp: try_download_def download_asset_def write_file_def store_def put_def Let_def
      split: option.splits node.splits if_splits sum.splits)

text \<open>
  Claim C3, as the code has it. A network error on the listing gives the empty result.
  Otherwise (every release of the listing carrying its asset list) the archive that is
  downloaded is the first \<^verbatim>\<open>.zip\<close> or \<^verbatim>\<open>.7z\<close> asset among all pre-release or
  \<open>nightly\<close>-tagged releases taken in listing order, so a nightly release without an
  archive is passed over for the next one; when no nightly release has an archive, also
  when nightly releases exist, it is the first archive of the first entry of the listing;
  and the result is empty when there is neither.
\<close>

theorem download_latest_nightly_selection:
  "(releases_json net = None \<longrightarrow> download_latest_nightly net cfg fs = (None, fs)) \<and>
   (\<forall>releases. releases_json net = Some releases \<and> (\<forall>r\<in>set releases. assets r \<noteq> None) \<longrightarrow>
      download_latest_nightly net cfg fs =
        (case concat (map archives (filter is_nightly releases)) @
              (case releases of [] \<Rightarrow> [] | latest # _ \<Rightarrow> archives latest) of
           [] \<Rightarrow> (None, fs)
         | a # _ \<Rightarrow> try_download net cfg fs a))"
proof (intro conjI allI impI)
  assume "releases_json net = None"
  then show "download_latest_nightly net cfg fs = (None, fs)"
    by (simp add: download_latest_nightly_def)
next
  fix releases
  assume a: "releases_json net = Some releases \<and> (\<forall>r\<in>set releases. assets r \<noteq> None)"
  then have n: "nightly_archive releases =
      Inr (case concat (map archives (filter is_nightly releases)) of [] \<Rightarrow> None | a # _ \<Rightarrow> Some a)"
    by (simp add: nightly_archive_concat)
  show "download_latest_nightly net cfg fs =
        (case concat (map archives (filter is_nightly releases)) @
              (case releases of [] \<Rightarrow> [] | latest # _ \<Rightarrow> archives latest) of
           [] \<Rightarrow> (None, fs)
         | a # _ \<Rightarrow> try_download net cfg fs a)"
  proof (cases "concat (map archives (filter is_nightly releases))")
    case (Cons c cs)
    with a n show ?thesis by (simp add: download_latest_nightly_def)
  next
    case Nil
    show ?thesis
    proof (cases releases)
      case Nil
      with a show ?thesis by (simp add: download_latest_nightly_def)
    next
      case (Cons r rs)
      with a obtain as where as: "assets r = Some as" by auto
      from a have rj: "releases_json net = Some releases" by simp
      from n Nil have n': "nightly_archive releases = Inr None" by simp
      have lhs: "download_latest_nightly net cfg fs =
          (case first_archive as of None \<Rightarrow> (None, fs) | Some a \<Rightarrow> try_download net cfg fs a)"
        using rj n' by (simp add: download_latest_nightly_def Cons as del: nightly_archive.simps)
      have rhs: "(case concat (map archives (filter is_nightly releases)) @
              (case releases of [] \<Rightarrow> [] | latest # _ \<Rightarrow> archives latest) of
           [] \<Rightarrow> (None, fs)
         | a # _ \<Rightarrow> try_download net cfg fs a) =
          (case filter is_archive as of [] \<Rightarrow> (None, fs) | a # _ \<Rightarrow> try_download net cfg fs a)"
        unfolding Nil by (simp add: Cons archives_def as)
      show ?thesis
        unfolding lhs rhs by (simp add: first_archive_filter split: list.splits)
    qed
  qed
qed

text \<open>
  The theorem at a listing of two nightly releases, the first of them without an archive,
  with the configuration directory in place: the archive of the second one is downloaded
  and saved there.
\<close>

theorem download_latest_nightly_selection_witness:
  "download_latest_nightly
     \<lparr>releases_json = Some
        [\<lparr>prerelease = True, tag_name = Some ''nightly'',
          assets = Some [\<lparr>asset_name = ''notes.txt'', browser_download_url = ''u1''\<rparr>]\<rparr>,
         \<lparr>prerelease = True, tag_name = Some ''pre-0.9'',
          assets = Some [\<lparr>asset_name = ''OptiScaler.7z'', browser_download_url = ''u2''\<rparr>]\<rparr>],
      body = (\<lambda>u. Some ''7z'')\<rparr>
     ''/cfg'' sample_config
   = try_download
     \<lparr>releases_json = Some
        [\<lparr>prerelease = True, tag_name = Some ''nightly'',
          assets = Some [\<lparr>asset_name = ''notes.txt'', browser_download_url = ''u1''\<rparr>]\<rparr>,
         \<lparr>prerelease = True, tag_name = Some ''pre-0.9'',
          assets = Some [\<lparr>asset_name = ''OptiScaler.7z'', browser_download_url = ''u2''\<rparr>]\<rparr>],
      body = (\<lambda>u. Some ''7z'')\<rparr>
     ''/cfg'' sample_config
     \<lparr>asset_name = ''OptiScaler.7z'', browser_download_url = ''u2''\<rparr>
   \<and> fst (download_latest_nightly
     \<lparr>releases_json = Some
        [\<lparr>prerelease = True, tag_name = Some ''nightly'',
          assets = Some [\<lparr>asset_name = ''notes.txt'', browser_download_url = ''u1''\<rparr>]\<rparr>,
         \<lparr>prerelease = True, tag_name = Some ''pre-0.9'',
          assets = Some [\<lparr>asset_name = ''OptiScaler.7z'', browser_download_url = ''u2''\<rparr>]\<rparr>],
      body = (\<lambda>u. Some ''7z'')\<rparr>
     ''/cfg'' sample_config) = Some ''/cfg/OptiScaler.7z''"
proof -
  let ?net = "\<lparr>releases_json = Some
        [\<lparr>prerelease = True, tag_name = Some ''nightly'',
          assets = Some [\<lparr>asset_name = ''notes.txt'', browser_download_url = ''u1''\<rparr>]\<rparr>,
         \<lparr>prerelease = True, tag_name = Some ''pre-0.9'',
          assets = Some [\<lparr>asset_name = ''OptiScaler.7z'', browser_download_url = ''u2''\<rparr>]\<rparr>],
      body = (\<lambda>u. Some ''7z'')\<rparr>"
  have 1: "download_latest_nightly ?net ''/cfg'' sample_config =
      try_download ?net ''/cfg'' sample_config
        \<lparr>asset_name = ''OptiScaler.7z'', browser_download_url = ''u2''\<rparr>"
    using download_latest_nightly_selection [of ?net "''/cfg''" sample_config]
    by (simp add: archives_def is_nightly_def is_archive_def endswith_def suffix_def)
  have 2: "fst (try_download ?net ''/cfg'' sample_config
        \<lparr>asset_name = ''OptiScaler.7z'', browser_download_url = ''u2''\<rparr>) =
      Some ''/cfg/OptiScaler.7z''"
    by code_simp
  from 1 2 show ?thesis by simp
qed

text \<open>
  The claim as the specification words it fails on a listing whose stable first entry has
  an archive and whose only pre-release has none, the configuration directory being in
  place: the specification's selection chooses the pre-release and finds nothing, the
  code falls back to the first entry although a pre-release exists, and saves its
  archive.
\<close>

theorem download_latest_nightly_counterexample:
  "fst (download_latest_nightly
       \<lparr>releases_json = Some
          [\<lparr>prerelease = False, tag_name = Some ''v0.7.7'',
            assets = Some [\<lparr>asset_name = ''OptiScaler.zip'', browser_download_url = ''u1''\<rparr>]\<rparr>,
           \<lparr>prerelease = True, tag_name = Some ''nightly'',
            assets = Some [\<lparr>asset_name = ''notes.txt'', browser_download_url = ''u2''\<rparr>]\<rparr>],
        body = (\<lambda>u. Some ''PK'')\<rparr>
       ''/cfg'' sample_config) = Some ''/cfg/OptiScaler.zip''
   \<and> fst (spec_fetch_latest_build
       \<lparr>releases_json = Some
          [\<lparr>prerelease = False, tag_name = Some ''v0.7.7'',
            assets = Some [\<lparr>asset_name = ''OptiScaler.zip'', browser_download_url = ''u1''\<rparr>]\<rparr>,
           \<lparr>prerelease = True, tag_name = Some ''nightly'',
            assets = Some [\<lparr>asset_name = ''notes.txt'', browser_download_url = ''u2''\<rparr>]\<rparr>],
        body = (\<lambda>u. Some ''PK'')\<rparr>
       ''/cfg'' sample_config) = None
   \<and> nodes sample_config ''/cfg'' = Some Dir"
  by code_simp

section \<open>The configuration file\<close>

lemma readlines_line:
  "CHR 0x0A \<notin> set l \<Longrightarrow> readlines (l @ CHR 0x0A # rest) = (l @ [CHR 0x0A]) # readlines rest"
  by (induction l) auto

lemma readlines_last:
  "CHR 0x0A \<notin> set l \<Longrightarrow> l \<noteq> [] \<Longrightarrow> readlines l = [l]"
proof (induction l)
  case Nil
  then show ?case by simp
next
  case (Cons c l)
  then show ?case by (cases l) auto
qed

lemma line_ok_cases:
  "line_ok l \<Longrightarrow> (CHR 0x0A \<notin> set l \<and> l \<noteq> []) \<or> (\<exists>k. l = k @ [CHR 0x0A] \<and> CHR 0x0A \<notin> set k)"
  by (cases l rule: rev_cases) (auto simp: line_ok_def)

lemma line_ok_terminated:
  "line_ok l \<Longrightarrow> last l = CHR 0x0A \<Longrightarrow> \<exists>k. l = k @ [CHR 0x0A] \<and> CHR 0x0A \<notin> set k"
  by (cases l rule: rev_cases) (auto simp: line_ok_def)

lemma readlines_concat: "wf_lines ls \<Longrightarrow> readlines (concat ls) = ls"
proof (induction ls rule: wf_lines.induct)
  case 1
  then show ?case by simp
next
  case (2 l)
  then have "line_ok l" by simp
  from line_ok_cases[OF this] show ?case
    by (auto simp: readlines_last readlines_line)
next
  case (3 l l' ls)
  then obtain k where k: "l = k @ [CHR 0x0A]" "CHR 0x0A \<notin> set k"
    using line_ok_terminated by auto
  from 3 have "readlines (concat (l' # ls)) = l' # ls" by simp
  then show ?case
    using k by (simp add: readlines_line)
qed

lemma wf_lines_readlines: "wf_lines (readlines t)"
proof (induction t)
  case Nil
  then show ?case by simp
next
  case (Cons c t)
  show ?case
  proof (cases "c = CHR 0x0A")
    case True
    with Cons show ?thesis by (cases "readlines t") (auto simp: line_ok_def)
  next
    case False
    show ?thesis
    proof (cases "readlines t")
      case Nil
      with False show ?thesis by (simp add: line_ok_def)
    next
      case (Cons l ls)
      with False \<open>wf_lines (readlines t)\<close> show ?thesis
        by (cases ls) (auto simp: line_ok_def)
    qed
  qed
qed

lemma wf_lines_iff:
  "wf_lines ls \<longleftrightarrow> (\<forall>l\<in>set ls. line_ok l) \<and> (\<forall>l\<in>set (butlast ls). last l = CHR 0x0A)"
  by (induction ls rule: wf_lines.induct) auto

lemma wf_lines_update:
  assumes "wf_lines ls" "line_ok l" "last l = CHR 0x0A"
  shows "wf_lines (ls[i := l])"
proof -
  have "set (ls[i := l]) \<subseteq> insert l (set ls)"
    by (rule set_update_subset_insert)
  moreover have "set (butlast (ls[i := l])) \<subseteq> insert l (set (butlast ls))"
    by (auto simp: butlast_list_update dest: set_update_subset_insert[THEN subsetD])
  ultimately show ?thesis
    using assms unfolding wf_lines_iff by blast
qed

lemma rewrite_first_update:
  "rewrite_first ls =
     (if \<exists>l\<in>set ls. is_fsr4_line l then Some (ls[first_fsr4 ls := ''Fsr4Update=true\<newline>''])
      else None)"
  by (induction ls) (auto simp: first_fsr4_def)

lemma first_fsr4_less: "\<exists>l\<in>set ls. is_fsr4_line l \<Longrightarrow> first_fsr4 ls < length ls"
  by (induction ls) (auto simp: first_fsr4_def)

lemma first_fsr4_hit: "\<exists>l\<in>set ls. is_fsr4_line l \<Longrightarrow> is_fsr4_line (ls ! first_fsr4 ls)"
  by (induction ls) (auto simp: first_fsr4_def)

lemma first_fsr4_before: "j < first_fsr4 ls \<Longrightarrow> \<not> is_fsr4_line (ls ! j)"
proof (induction ls arbitrary: j)
  case Nil
  then show ?case by (simp add: first_fsr4_def)
next
  case (Cons a ls)
  then show ?case by (cases j) (auto simp: first_fsr4_def split: if_splits)
qed

lemma new_line_is_fsr4: "is_fsr4_line ''Fsr4Update=true\<newline>''"
  by (simp add: is_fsr4_line_def strip_def is_space_def startswith_def)

lemma filter_update_same:
  "i < length ls \<Longrightarrow> P (ls ! i) \<Longrightarrow> P x \<Longrightarrow> length (filter P (ls[i := x])) = length (filter P ls)"
proof (induction ls arbitrary: i)
  case Nil
  then show ?case by simp
next
  case (Cons a ls)
  then show ?case by (cases i) auto
qed

text \<open>
  Claim C10. When some line of the file sets the key (its stripped text starts with
  \<^verbatim>\<open>Fsr4Update=\<close>), the step rewrites the first such line, at whatever place and
  in whatever section it stands, to \<^verbatim>\<open>Fsr4Update=true\<close>: the lines of the
  document after the step are the lines before it with that one line replaced, so no
  line is added and every other line is kept, and the number of lines that set the key
  is the same as before.
\<close>

theorem configure_rewrites_first_key_line:
  assumes "\<exists>l\<in>set (readlines text). is_fsr4_line l"
  shows "readlines (configure_text (Some text)) =
           (readlines text)[first_fsr4 (readlines text) := ''Fsr4Update=true\<newline>'']
         \<and> first_fsr4 (readlines text) < length (readlines text)
         \<and> is_fsr4_line (readlines text ! first_fsr4 (readlines text))
         \<and> (\<forall>j < first_fsr4 (readlines text). \<not> is_fsr4_line (readlines text ! j))
         \<and> length (filter is_fsr4_line (readlines (configure_text (Some text)))) =
             length (filter is_fsr4_line (readlines text))"
proof -
  let ?ls = "readlines text"
  let ?i = "first_fsr4 ?ls"
  let ?new = "''Fsr4Update=true\<newline>''"
  have lt: "?i < length ?ls" using assms by (rule first_fsr4_less)
  have hit: "is_fsr4_line (?ls ! ?i)" using assms by (rule first_fsr4_hit)
  have before: "\<forall>j < ?i. \<not> is_fsr4_line (?ls ! j)"
    by (simp add: first_fsr4_before)
  have "update_lines ?ls = ?ls[?i := ?new]"
    using assms by (simp add: update_lines_def rewrite_first_update)
  then have doc: "configure_text (Some text) = concat (?ls[?i := ?new])"
    by (simp add: configure_text_def writelines_def)
  have "wf_lines (?ls[?i := ?new])"
    by (rule wf_lines_update) (simp_all add: wf_lines_readlines line_ok_def)
  then have rl: "readlines (configure_text (Some text)) = ?ls[?i := ?new]"
    unfolding doc by (rule readlines_concat)
  have cnt: "length (filter is_fsr4_line (?ls[?i := ?new])) = length (filter is_fsr4_line ?ls)"
    using lt hit new_line_is_fsr4 by (rule filter_update_same)
  show ?thesis using rl lt hit before cnt by simp
qed

text \<open>The theorem on a file whose key stands in a section other than \<^verbatim>\<open>[OptiScaler]\<close>.\<close>

theorem configure_rewrites_first_key_line_witness:
  "readlines (configure_text
     (Some ''[Display]\<newline>Fsr4Update=false\<newline>[OptiScaler]\<newline>Dx12Upscaler=auto\<newline>'')) =
   [''[Display]\<newline>'', ''Fsr4Update=true\<newline>'', ''[OptiScaler]\<newline>'',
    ''Dx12Upscaler=auto\<newline>'']"
  using configure_rewrites_first_key_line
    [of "''[Display]\<newline>Fsr4Update=false\<newline>[OptiScaler]\<newline>Dx12Upscaler=auto\<newline>''"]
  by (simp add: first_fsr4_def is_fsr4_line_def strip_def is_space_def startswith_def)

text \<open>
  Claim C7. On the four starting states with every line ended by a line feed, the second
  run changes nothing and the document has one line \<^verbatim>\<open>Fsr4Update=true\<close>.
\<close>

lemma configure_twice_fixtures:
  "configure_text (Some (configure_text None)) = configure_text None"
  "configure_text (Some ''[OptiScaler]\<newline>Dx12Upscaler=auto\<newline>'') =
     ''[OptiScaler]\<newline>Dx12Upscaler=auto\<newline>Fsr4Update=true\<newline>''"
  "configure_text (Some ''[OptiScaler]\<newline>Dx12Upscaler=auto\<newline>Fsr4Update=true\<newline>'') =
     ''[OptiScaler]\<newline>Dx12Upscaler=auto\<newline>Fsr4Update=true\<newline>''"
  "configure_text (Some ''[OptiScaler]\<newline>Fsr4Update=false\<newline>'') =
     ''[OptiScaler]\<newline>Fsr4Update=true\<newline>''"
  "configure_text (Some ''[OptiScaler]\<newline>Fsr4Update=true\<newline>'') =
     ''[OptiScaler]\<newline>Fsr4Update=true\<newline>''"
  "configure_text (Some ''[Display]\<newline>Width=1\<newline>'') =
     ''[Display]\<newline>Width=1\<newline>\<newline>[OptiScaler]\<newline>Fsr4Update=true\<newline>''"
  "configure_text (Some ''[Display]\<newline>Width=1\<newline>\<newline>[OptiScaler]\<newline>Fsr4Update=true\<newline>'') =
     ''[Display]\<newline>Width=1\<newline>\<newline>[OptiScaler]\<newline>Fsr4Update=true\<newline>''"
  by (simp_all add: configure_text_def ini_content_def update_lines_def writelines_def
      is_fsr4_line_def startswith_def strip_def is_space_def list_insert_def)

text \<open>
  Claim C7 fails on a file without the key whose last line, inside the
  \<^verbatim>\<open>[OptiScaler]\<close> section, has no line feed at its end: the first run glues
  \<^verbatim>\<open>Fsr4Update=true\<close> to that line, so that no line sets the key and the last option
  is damaged, and the second run, finding no key, adds a line; the two runs give
  different documents.
\<close>

theorem configure_twice_unterminated:
  "configure_text (Some ''[OptiScaler]\<newline>Dx12Upscaler=auto'') =
     ''[OptiScaler]\<newline>Dx12Upscaler=autoFsr4Update=true\<newline>''
   \<and> configure_text (Some ''[OptiScaler]\<newline>Dx12Upscaler=autoFsr4Update=true\<newline>'') =
     ''[OptiScaler]\<newline>Dx12Upscaler=autoFsr4Update=true\<newline>Fsr4Update=true\<newline>''
   \<and> filter is_fsr4_line
        (readlines (configure_text (Some ''[OptiScaler]\<newline>Dx12Upscaler=auto''))) = []"
  by (simp add: configure_text_def update_lines_def writelines_def
      is_fsr4_line_def startswith_def strip_def is_space_def list_insert_def)

section \<open>Executable candidate ranker\<close>

lemma location_of_error: "location_of g e = Some (Inl err) \<Longrightarrow> err = ValueError"
  by (auto simp: location_of_def split: if_splits option.splits prod.splits)

lemma accepted_Cons:
  "accepted g (e # es) =
     (case location_of g e of Some (Inr l) \<Rightarrow> l # accepted g es | _ \<Rightarrow> accepted g es)"
  by (simp add: accepted_def List.map_filter_simps split: option.splits sum.splits)

lemma accepted_Nil: "accepted g [] = []"
  by (simp add: accepted_def List.map_filter_simps)

lemma scan_eq:
  "scan g es acc =
     (if raises g es then Inl ValueError
      else Inr (foldl (\<lambda>acc l. add_location l acc) acc (accepted g es)))"
proof (induction es arbitrary: acc)
  case Nil
  then show ?case by (simp add: raises_def accepted_Nil)
next
  case (Cons e es)
  show ?case
  proof (cases "location_of g e")
    case None
    with Cons show ?thesis by (simp add: raises_def accepted_Cons)
  next
    case (Some r)
    show ?thesis
    proof (cases r)
      case (Inl err)
      with Some have "err = ValueError" by (simp add: location_of_error)
      with Some Inl show ?thesis by (auto simp: raises_def)
    next
      case (Inr l)
      with Some Cons show ?thesis by (simp add: raises_def accepted_Cons)
    qed
  qed
qed

lemma set_accepted:
  "set (accepted g es) = {l. \<exists>e\<in>set es. location_of g e = Some (Inr l)}"
  by (induction es) (auto simp: accepted_Nil accepted_Cons split: option.splits sum.splits)

lemma add_location_paths:
  "map path (add_location l acc) =
     (if path l \<in> set (map path acc) then map path acc else map path acc @ [path l])"
  by (induction acc) auto

lemma add_location_subset: "set (add_location l acc) \<subseteq> insert l (set acc)"
  by (induction acc) auto

lemma add_location_covers:
  "c \<in> insert l (set acc) \<Longrightarrow>
   \<exists>k\<in>set (add_location l acc). path k = path c \<and> priority k \<le> priority c"
proof (induction acc)
  case Nil
  then show ?case by auto
next
  case (Cons a acc)
  show ?case
  proof (cases "path a = path l")
    case True
    with Cons.prems show ?thesis by (auto simp: le_less)
  next
    case False
    with Cons show ?thesis by auto
  qed
qed

lemma dedupe_distinct: "distinct (map path acc) \<Longrightarrow> distinct (map path (dedupe acc cs))"
  unfolding dedupe_def
proof (induction cs arbitrary: acc)
  case Nil
  then show ?case by simp
next
  case (Cons c cs)
  have "distinct (map path (add_location c acc))"
    using Cons.prems by (simp add: add_location_paths)
  then show ?case using Cons.IH by simp
qed

lemma dedupe_subset: "set (dedupe acc cs) \<subseteq> set acc \<union> set cs"
  unfolding dedupe_def
proof (induction cs arbitrary: acc)
  case Nil
  then show ?case by simp
next
  case (Cons c cs)
  have "set (foldl (\<lambda>acc l. add_location l acc) (add_location c acc) cs)
          \<subseteq> set (add_location c acc) \<union> set cs"
    by (rule Cons.IH)
  with add_location_subset[of c acc] show ?case by auto
qed

lemma dedupe_covers:
  "c \<in> set acc \<union> set cs \<Longrightarrow> \<exists>k\<in>set (dedupe acc cs). path k = path c \<and> priority k \<le> priority c"
  unfolding dedupe_def
proof (induction cs arbitrary: acc c)
  case Nil
  then show ?case by auto
next
  case (Cons d cs)
  show ?case
  proof (cases "c \<in> insert d (set acc)")
    case True
    then obtain k where k: "k \<in> set (add_location d acc)" "path k = path c" "priority k \<le> priority c"
      using add_location_covers by blast
    then have "k \<in> set (add_location d acc) \<union> set cs" by simp
    from Cons.IH[OF this] obtain k' where
      "k' \<in> set (foldl (\<lambda>acc l. add_location l acc) (add_location d acc) cs)"
      "path k' = path k" "priority k' \<le> priority k" by blast
    with k show ?thesis by (auto intro!: bexI[of _ k'])
  next
    case False
    with Cons.prems have "c \<in> set (add_location d acc) \<union> set cs" by auto
    from Cons.IH[OF this] show ?thesis by simp
  qed
qed

lemma dedupe_minimal:
  assumes "distinct (map path acc)" "k \<in> set (dedupe acc cs)" "c \<in> set acc \<union> set cs" "path c = path k"
  shows "priority k \<le> priority c"
proof -
  from dedupe_covers[OF assms(3)] obtain k' where
    k': "k' \<in> set (dedupe acc cs)" "path k' = path c" "priority k' \<le> priority c" by blast
  have "distinct (map path (dedupe acc cs))" using assms(1) by (rule dedupe_distinct)
  then have "inj_on path (set (dedupe acc cs))" by (simp add: distinct_map)
  with k' assms(2,4) have "k' = k" by (auto dest: inj_onD)
  with k' show ?thesis by simp
qed

lemma find_eq:
  "find_game_executable_paths g es =
     (if raises g es then Inl ValueError
      else Inr (sort_key location_key (dedupe [] (accepted g es))))"
  by (simp add: find_game_executable_paths_def scan_eq dedupe_def)

lemma not_raises:
  "\<forall>e\<in>set es. relative_to (parent e) g \<noteq> None \<Longrightarrow> \<not> raises g es"
  by (auto simp: raises_def location_of_def split: if_splits option.splits prod.splits)

lemma classify_cong:
  "parent e = parent e' \<Longrightarrow> name e = name e' \<Longrightarrow> classify g e = classify g e'"
  by (simp add: classify_def Let_def)

lemma location_of_fields:
  "location_of g e = Some (Inr l) \<Longrightarrow>
   path l = parent e \<and> exe_name l = name e \<and> is_file e \<and>
   classify g e = Some (exe_type l, priority l) \<and> relative_to (parent e) g = Some (relative_path l)"
  by (auto simp: location_of_def split: if_splits option.splits prod.splits)

lemma accepted_determined:
  assumes "l \<in> set (accepted g es)" "c \<in> set (accepted g es)"
    and "path l = path c" "priority l = priority c"
  shows "without_exe_name l = without_exe_name c"
proof -
  from assms obtain e e' where e: "location_of g e = Some (Inr l)" "location_of g e' = Some (Inr c)"
    by (auto simp: set_accepted)
  note f = location_of_fields[OF e(1)] location_of_fields[OF e(2)]
  from f assms(3) have rel: "relative_path l = relative_path c" by auto
  from f assms(3) have p: "parent e = parent e'" by simp
  from f have "classify g e = Some (exe_type l, priority l)" "classify g e' = Some (exe_type c, priority c)"
    by auto
  with p assms(4) have "exe_type l = exe_type c"
    by (auto simp: classify_def Let_def split: if_splits)
  with rel assms show ?thesis by (simp add: without_exe_name_def)
qed

lemma dedupe_stripped:
  assumes q: "\<And>l c. l \<in> set A \<Longrightarrow> c \<in> set A \<Longrightarrow> path l = path c \<Longrightarrow> priority l = priority c \<Longrightarrow>
              without_exe_name l = without_exe_name c"
  shows "without_exe_name ` set (dedupe [] A) =
         without_exe_name ` {c \<in> set A. \<forall>c'\<in>set A. path c' = path c \<longrightarrow> priority c \<le> priority c'}"
proof (intro equalityI subsetI)
  fix t assume "t \<in> without_exe_name ` set (dedupe [] A)"
  then obtain l where l: "l \<in> set (dedupe [] A)" "t = without_exe_name l" by blast
  then have "l \<in> set A" using dedupe_subset[of "[]" A] by auto
  moreover have "\<forall>c'\<in>set A. path c' = path l \<longrightarrow> priority l \<le> priority c'"
    using dedupe_minimal[of "[]" l A] l by auto
  ultimately show "t \<in> without_exe_name ` {c \<in> set A. \<forall>c'\<in>set A. path c' = path c \<longrightarrow> priority c \<le> priority c'}"
    using l by blast
next
  fix t assume "t \<in> without_exe_name ` {c \<in> set A. \<forall>c'\<in>set A. path c' = path c \<longrightarrow> priority c \<le> priority c'}"
  then obtain c where c: "c \<in> set A" "\<forall>c'\<in>set A. path c' = path c \<longrightarrow> priority c \<le> priority c'"
    "t = without_exe_name c" by blast
  from c(1) have "c \<in> set [] \<union> set A" by simp
  from dedupe_covers[OF this] obtain k where
    k: "k \<in> set (dedupe [] A)" "path k = path c" "priority k \<le> priority c" by blast
  then have kA: "k \<in> set A" using dedupe_subset[of "[]" A] by auto
  with c(2) k have "priority k = priority c" by (simp add: le_antisym)
  with q[OF kA c(1)] k have "without_exe_name k = without_exe_name c" by simp
  with k c show "t \<in> without_exe_name ` set (dedupe [] A)" by (metis imageI)
qed

lemma map_insort_key:
  "map f (insort_key (\<lambda>a. k (f a)) x xs) = insort_key k (f x) (map f xs)"
  by (induction xs) auto

lemma map_sort_key: "map f (sort_key (\<lambda>a. k (f a)) xs) = sort_key k (map f xs)"
  by (induction xs) (auto simp: map_insort_key)

lemma location_key_stripped: "location_key = (\<lambda>l. stripped_key (without_exe_name l))"
  by (auto simp: location_key_def stripped_key_def without_exe_name_def fun_eq_iff)

lemma sorted_unique:
  assumes "set xs = set ys" "distinct xs" "distinct ys" "inj_on k (set xs)"
  shows "sort_key k xs = sort_key k ys"
proof (rule sort_key_inj_key_eq)
  from assms show "mset xs = mset (sort_key k ys)"
    by (simp add: set_eq_iff_mset_eq_distinct)
  show "inj_on k (set xs)" by fact
  show "sorted (map k (sort_key k ys))" by simp
qed

lemma stripped_distinct:
  "distinct (map path R) \<Longrightarrow>
   distinct (map without_exe_name R) \<and> inj_on stripped_key (set (map without_exe_name R))"
proof -
  assume d: "distinct (map path R)"
  have p: "map path R = map fst (map without_exe_name R)"
    by (simp add: without_exe_name_def)
  from d p have d1: "distinct (map fst (map without_exe_name R))" by simp
  then have d2: "distinct (map without_exe_name R)"
    by (simp only: distinct_map)
  from d1 d2 have i: "inj_on fst (set (map without_exe_name R))"
    by (simp only: distinct_map)
  have "inj_on stripped_key (set (map without_exe_name R))"
  proof (rule inj_onI)
    fix a b
    assume "a \<in> set (map without_exe_name R)" "b \<in> set (map without_exe_name R)"
      "stripped_key a = stripped_key b"
    moreover from this have "fst a = fst b" by (simp add: stripped_key_def)
    ultimately show "a = b" using i by (auto dest: inj_onD)
  qed
  with d2 show ?thesis by simp
qed

lemma stripped_set_accepted:
  "set (map without_exe_name (dedupe [] (accepted g es))) =
   without_exe_name ` {c \<in> set (accepted g es).
      \<forall>c'\<in>set (accepted g es). path c' = path c \<longrightarrow> priority c \<le> priority c'}"
proof -
  have "without_exe_name ` set (dedupe [] (accepted g es)) =
   without_exe_name ` {c \<in> set (accepted g es).
      \<forall>c'\<in>set (accepted g es). path c' = path c \<longrightarrow> priority c \<le> priority c'}"
    by (rule dedupe_stripped) (rule accepted_determined)
  then show ?thesis by (simp only: set_map)
qed

text \<open>
  Claim C5. For a listing whose paths lie under the game directory (as those of
  \<^verbatim>\<open>rglob\<close> do) the function returns a list with at most one entry for each
  directory: no two entries have the same \<open>path\<close>, the directories of the list are the
  directories of the executables that are not skipped, and the priority of each entry is
  the least priority among the executables of its directory that are not skipped.
\<close>

theorem find_game_executable_paths_one_per_directory:
  assumes "\<forall>e\<in>set listing. relative_to (parent e) game_dir \<noteq> None"
  shows "\<exists>locs. find_game_executable_paths game_dir listing = Inr locs
           \<and> distinct (map path locs)
           \<and> set (map path locs) = set (map path (accepted game_dir listing))
           \<and> (\<forall>l\<in>set locs.
                priority l =
                  Min (priority ` {c \<in> set (accepted game_dir listing). path c = path l}))"
proof -
  let ?A = "accepted game_dir listing"
  let ?R = "dedupe [] ?A"
  let ?S = "sort_key location_key ?R"
  have eq: "find_game_executable_paths game_dir listing = Inr ?S"
    using assms by (simp add: find_eq not_raises)
  have d: "distinct (map path ?S)"
    using dedupe_distinct[of "[]" ?A] by (simp add: distinct_map)
  have sub: "set ?R \<subseteq> set ?A" using dedupe_subset[of "[]" ?A] by simp
  have paths: "set (map path ?S) = set (map path ?A)"
  proof
    show "set (map path ?S) \<subseteq> set (map path ?A)" using sub by auto
    show "set (map path ?A) \<subseteq> set (map path ?S)"
    proof
      fix p assume "p \<in> set (map path ?A)"
      then obtain c where c: "c \<in> set ?A" "path c = p" by auto
      then have "c \<in> set [] \<union> set ?A" by simp
      from dedupe_covers[OF this] obtain k where "k \<in> set ?R" "path k = path c" by blast
      then have "path k \<in> path ` set ?R" by (rule_tac imageI)
      with c \<open>path k = path c\<close> show "p \<in> set (map path ?S)" by simp
    qed
  qed
  have mn: "\<forall>l\<in>set ?S. priority l = Min (priority ` {c \<in> set ?A. path c = path l})"
  proof
    fix l assume "l \<in> set ?S"
    then have l: "l \<in> set ?R" by simp
    let ?P = "priority ` {c \<in> set ?A. path c = path l}"
    have fin: "finite ?P" by simp
    have mem: "priority l \<in> ?P" using l sub by auto
    have "\<forall>x\<in>?P. priority l \<le> x"
      using dedupe_minimal[of "[]" l ?A] l by auto
    with fin mem have "Min ?P = priority l"
      by (intro Min_eqI) auto
    then show "priority l = Min ?P" by simp
  qed
  show ?thesis
    by (rule exI[of _ ?S]) (use eq d paths mn in blast)
qed

theorem find_game_executable_paths_one_per_directory_witness:
  "\<exists>locs. find_game_executable_paths ''/games/Foo''
       [\<lparr>parent = ''/games/Foo/bin'', name = ''tool.exe'', is_file = True\<rparr>,
        \<lparr>parent = ''/games/Foo/bin'', name = ''Foo_Shipping.exe'', is_file = True\<rparr>,
        \<lparr>parent = ''/games/Foo'', name = ''Foo.exe'', is_file = True\<rparr>] = Inr locs
     \<and> distinct (map path locs)
     \<and> set (map path locs) = set (map path (accepted ''/games/Foo''
       [\<lparr>parent = ''/games/Foo/bin'', name = ''tool.exe'', is_file = True\<rparr>,
        \<lparr>parent = ''/games/Foo/bin'', name = ''Foo_Shipping.exe'', is_file = True\<rparr>,
        \<lparr>parent = ''/games/Foo'', name = ''Foo.exe'', is_file = True\<rparr>]))
     \<and> (\<forall>l\<in>set locs.
          priority l =
            Min (priority ` {c \<in> set (accepted ''/games/Foo''
       [\<lparr>parent = ''/games/Foo/bin'', name = ''tool.exe'', is_file = True\<rparr>,
        \<lparr>parent = ''/games/Foo/bin'', name = ''Foo_Shipping.exe'', is_file = True\<rparr>,
        \<lparr>parent = ''/games/Foo'', name = ''Foo.exe'', is_file = True\<rparr>]). path c = path l}))"
proof -
  have h: "\<forall>e\<in>set [\<lparr>parent = ''/games/Foo/bin'', name = ''tool.exe'', is_file = True\<rparr>,
        \<lparr>parent = ''/games/Foo/bin'', name = ''Foo_Shipping.exe'', is_file = True\<rparr>,
        \<lparr>parent = ''/games/Foo'', name = ''Foo.exe'', is_file = True\<rparr>].
      relative_to (parent e) ''/games/Foo'' \<noteq> None"
    by (simp add: relative_to_def path_parts_def startswith_def)
  show ?thesis by (rule find_game_executable_paths_one_per_directory[OF h])
qed

text \<open>
  Claim C2, as the code has it. The test for the engine markers is the last branch of the
  \<^verbatim>\<open>elif\<close> chain, behind the three rules that give a priority. An executable whose
  lower-cased name contains \<^verbatim>\<open>ue4\<close> or \<^verbatim>\<open>ue5\<close> is therefore left out of the
  result whenever it does not sit directly in the game root, its name does not contain
  \<^verbatim>\<open>_shipping\<close> and the path of its directory contains none of the common-folder
  markers: it is no candidate, and no entry of the returned list has its directory and
  name. (When one of the three rules applies the file is ranked as any other.)
\<close>

theorem engine_tagged_executable_excluded:
  assumes "contains ''ue4'' (lower (name e)) \<or> contains ''ue5'' (lower (name e))"
    and "parent e \<noteq> game_dir"
    and "\<not> contains ''_shipping'' (lower (name e))"
    and "\<not> any_in common_folders (lower (parent e))"
  shows "location_of game_dir e = None \<and>
         (\<forall>locs. find_game_executable_paths game_dir listing = Inr locs \<longrightarrow>
            \<not> (\<exists>l\<in>set locs. path l = parent e \<and> exe_name l = name e))"
proof -
  have c: "classify game_dir e = None"
    using assms by (simp add: classify_def Let_def)
  then have "location_of game_dir e = None" by (simp add: location_of_def)
  moreover have "\<not> (\<exists>l\<in>set locs. path l = parent e \<and> exe_name l = name e)"
    if r: "find_game_executable_paths game_dir listing = Inr locs" for locs
  proof
    assume "\<exists>l\<in>set locs. path l = parent e \<and> exe_name l = name e"
    then obtain l where l: "l \<in> set locs" "path l = parent e" "exe_name l = name e" by blast
    from r have "locs = sort_key location_key (dedupe [] (accepted game_dir listing))"
      by (simp add: find_eq split: if_splits)
    with l dedupe_subset[of "[]" "accepted game_dir listing"]
    have "l \<in> set (accepted game_dir listing)" by auto
    then obtain e' where "location_of game_dir e' = Some (Inr l)"
      by (auto simp: set_accepted)
    from location_of_fields[OF this] l have
      "parent e' = parent e" "name e' = name e" "classify game_dir e' \<noteq> None" by auto
    with classify_cong[of e' e game_dir] c show False by simp
  qed
  ultimately show ?thesis by blast
qed

theorem engine_tagged_executable_excluded_witness:
  "find_game_executable_paths ''/games/Foo''
     [\<lparr>parent = ''/games/Foo/Extras'', name = ''UE4Helper.exe'', is_file = True\<rparr>,
      \<lparr>parent = ''/games/Foo/Extras'', name = ''Foo.exe'', is_file = True\<rparr>] =
   Inr [\<lparr>path = ''/games/Foo/Extras'', exe_name = ''Foo.exe'', exe_type = ''Other'',
         priority = 3, relative_path = ''Extras''\<rparr>]
   \<and> location_of ''/games/Foo''
       \<lparr>parent = ''/games/Foo/Extras'', name = ''UE4Helper.exe'', is_file = True\<rparr> = None
   \<and> \<not> (\<exists>l\<in>set [\<lparr>path = ''/games/Foo/Extras'', exe_name = ''Foo.exe'', exe_type = ''Other'',
         priority = 3, relative_path = ''Extras''\<rparr>].
         path l = ''/games/Foo/Extras'' \<and> exe_name l = ''UE4Helper.exe'')"
proof -
  let ?e = "\<lparr>parent = ''/games/Foo/Extras'', name = ''UE4Helper.exe'', is_file = True\<rparr>"
  let ?listing = "[?e, \<lparr>parent = ''/games/Foo/Extras'', name = ''Foo.exe'', is_file = True\<rparr>]"
  have h1: "contains ''ue4'' (lower (name ?e)) \<or> contains ''ue5'' (lower (name ?e))"
    by code_simp
  have h2: "parent ?e \<noteq> ''/games/Foo''" by simp
  have h3: "\<not> contains ''_shipping'' (lower (name ?e))" by code_simp
  have h4: "\<not> any_in common_folders (lower (parent ?e))" by code_simp
  have r: "find_game_executable_paths ''/games/Foo'' ?listing =
      Inr [\<lparr>path = ''/games/Foo/Extras'', exe_name = ''Foo.exe'', exe_type = ''Other'',
         priority = 3, relative_path = ''Extras''\<rparr>]"
    by code_simp
  from engine_tagged_executable_excluded[OF h1 h2 h3 h4, of ?listing] r
  show ?thesis by simp
qed

text \<open>
  The claim as stated fails for such a file directly in the game root: the first rule of
  the chain gives it priority 1 before the engine markers are looked at, and it is
  returned.
\<close>

theorem engine_tagged_executable_counterexample:
  "find_game_executable_paths ''/games/Foo''
     [\<lparr>parent = ''/games/Foo'', name = ''ue4game.exe'', is_file = True\<rparr>] =
   Inr [\<lparr>path = ''/games/Foo'', exe_name = ''ue4game.exe'', exe_type = ''Main Game Directory'',
         priority = 1, relative_path = ''.''\<rparr>]"
  by code_simp

text \<open>
  Claim C4, as the code has it. Two listings of the same paths in any two orders give the
  same result up to the names of the executables: the same error, or lists that agree,
  position by position, in \<open>path\<close>, \<open>type\<close>, \<open>priority\<close> and \<open>relative_path\<close>.
  (The \<open>exe_name\<close> of an entry is that of the executable of least priority that the
  traversal met first in the directory.)
\<close>

theorem find_game_executable_paths_order_independent:
  assumes "set listing = set listing'"
  shows "map_sum id (map without_exe_name) (find_game_executable_paths game_dir listing) =
         map_sum id (map without_exe_name) (find_game_executable_paths game_dir listing')"
proof -
  have r: "raises game_dir listing = raises game_dir listing'"
    using assms by (simp add: raises_def)
  let ?A = "accepted game_dir listing" and ?A' = "accepted game_dir listing'"
  let ?T = "map without_exe_name (dedupe [] ?A)" and ?T' = "map without_exe_name (dedupe [] ?A')"
  have A: "set ?A = set ?A'" using assms by (simp only: set_accepted)
  have s: "set ?T = set ?T'"
    unfolding stripped_set_accepted A ..
  have "distinct (map path (dedupe [] ?A))"
    by (rule dedupe_distinct) simp
  then have d: "distinct ?T" "inj_on stripped_key (set ?T)"
    using stripped_distinct[of "dedupe [] ?A"] by (simp_all only:)
  have "distinct (map path (dedupe [] ?A'))"
    by (rule dedupe_distinct) simp
  then have d': "distinct ?T'"
    using stripped_distinct[of "dedupe [] ?A'"] by (simp only:)
  have "sort_key stripped_key ?T = sort_key stripped_key ?T'"
    using s d(1) d' d(2) by (rule sorted_unique)
  then have m: "map without_exe_name (sort_key location_key (dedupe [] ?A)) =
             map without_exe_name (sort_key location_key (dedupe [] ?A'))"
    by (simp only: location_key_stripped map_sort_key)
  show ?thesis
  proof (cases "raises game_dir listing")
    case True
    with r show ?thesis by (simp only: find_eq if_True)
  next
    case False
    with r m show ?thesis by (simp add: find_eq)
  qed
qed

theorem find_game_executable_paths_order_independent_witness:
  "map_sum id (map without_exe_name) (find_game_executable_paths ''/games/Foo''
     [\<lparr>parent = ''/games/Foo'', name = ''a.exe'', is_file = True\<rparr>,
      \<lparr>parent = ''/games/Foo'', name = ''b.exe'', is_file = True\<rparr>]) =
   map_sum id (map without_exe_name) (find_game_executable_paths ''/games/Foo''
     [\<lparr>parent = ''/games/Foo'', name = ''b.exe'', is_file = True\<rparr>,
      \<lparr>parent = ''/games/Foo'', name = ''a.exe'', is_file = True\<rparr>])"
  by (rule find_game_executable_paths_order_independent) auto

text \<open>
  The claim as stated fails for two executables of the same priority in one directory:
  the entry carries the name of the one the traversal yields first.
\<close>

theorem find_game_executable_paths_order_counterexample:
  "find_game_executable_paths ''/games/Foo''
     [\<lparr>parent = ''/games/Foo'', name = ''a.exe'', is_file = True\<rparr>,
      \<lparr>parent = ''/games/Foo'', name = ''b.exe'', is_file = True\<rparr>] =
   Inr [\<lparr>path = ''/games/Foo'', exe_name = ''a.exe'', exe_type = ''Main Game Directory'',
         priority = 1, relative_path = ''.''\<rparr>]
  \<and> find_game_executable_paths ''/games/Foo''
     [\<lparr>parent = ''/games/Foo'', name = ''b.exe'', is_file = True\<rparr>,
      \<lparr>parent = ''/games/Foo'', name = ''a.exe'', is_file = True\<rparr>] =
   Inr [\<lparr>path = ''/games/Foo'', exe_name = ''b.exe'', exe_type = ''Main Game Directory'',
         priority = 1, relative_path = ''.''\<rparr>]"
  by code_simp

section \<open>Library and game locator\<close>

lemma scan_manifests_eq:
  "scan_manifests fs mt lib ms games = add_games mt games (List.map_filter (manifest_game fs lib) ms)"
  by (induction ms arbitrary: games) (auto simp: add_games_def List.map_filter_simps split: option.splits)

lemma add_games_append: "add_games mt games (xs @ ys) = add_games mt (add_games mt games xs) ys"
  by (simp add: add_games_def)

lemma scan_libraries_eq:
  "scan_libraries fs mt libs games = add_games mt games (discovered fs libs)"
proof (induction libs arbitrary: games)
  case Nil
  then show ?case by (simp add: add_games_def)
next
  case (Cons l libs)
  obtain lib ms where l: "l = (lib, ms)" by (cases l)
  show ?case
    using Cons by (simp add: l scan_manifests_eq add_games_append)
qed

lemma find_SomeD: "find P xs = Some e \<Longrightarrow> e \<in> set xs \<and> P e"
  by (induction xs) (auto split: if_splits)

lemma replace_first_ids: "map app_id (replace_first (app_id new) new gs) = map app_id gs"
  by (induction gs) auto

lemma replace_first_subset: "set (replace_first a new gs) \<subseteq> insert new (set gs)"
  by (induction gs) auto

lemma replace_first_keeps:
  "find (\<lambda>g. app_id g = a) gs = Some e \<Longrightarrow>
   new \<in> set (replace_first a new gs) \<and> (\<forall>x\<in>set gs. x \<noteq> e \<longrightarrow> x \<in> set (replace_first a new gs))"
  by (induction gs) (auto split: if_splits)

lemma add_game_ids:
  "map app_id (add_game mt new games) =
     (if app_id new \<in> set (map app_id games) then map app_id games
      else map app_id games @ [app_id new])"
proof (cases "find (\<lambda>g. app_id g = app_id new) games")
  case None
  then have "app_id new \<notin> set (map app_id games)" by (auto simp: find_None_iff)
  with None show ?thesis by (simp add: add_game_def)
next
  case (Some e)
  from find_SomeD[OF this] have "e \<in> set games" "app_id e = app_id new" by simp_all
  then have "app_id new \<in> set (map app_id games)" by (metis image_eqI set_map)
  with Some show ?thesis
    by (simp add: add_game_def replace_first_ids split: option.splits)
qed

lemma add_game_subset: "set (add_game mt new games) \<subseteq> insert new (set games)"
  using replace_first_subset[of "app_id new" new games]
  by (auto simp: add_game_def split: option.splits)

lemma add_game_covers:
  assumes "x \<in> insert new (set games)"
    and "mt (game_path new) \<noteq> None" and "\<forall>g\<in>set games. mt (game_path g) \<noteq> None"
  shows "\<exists>k\<in>set (add_game mt new games). app_id k = app_id x \<and> mtime_of mt x \<le> mtime_of mt k"
proof (cases "find (\<lambda>g. app_id g = app_id new) games")
  case None
  with assms(1) show ?thesis by (auto simp: add_game_def)
next
  case (Some e)
  then have e: "e \<in> set games" "app_id e = app_id new"
    by (auto dest: find_SomeD)
  from assms e obtain te tn where t: "mt (game_path e) = Some te" "mt (game_path new) = Some tn"
    by auto
  show ?thesis
  proof (cases "tn > te")
    case True
    with Some t have a: "add_game mt new games = replace_first (app_id new) new games"
      by (simp add: add_game_def)
    note k = replace_first_keeps[OF Some, of new]
    show ?thesis
    proof (cases "x = new \<or> x = e")
      case True
      with \<open>tn > te\<close> t e k show ?thesis
        unfolding a by (auto simp: mtime_of_def intro!: bexI[of _ new])
    next
      case False
      with assms(1) k show ?thesis unfolding a by (auto intro!: bexI[of _ x])
    qed
  next
    case False
    with Some t have a: "add_game mt new games = games"
      by (simp add: add_game_def)
    show ?thesis
    proof (cases "x = new")
      case True
      with False t e show ?thesis
        unfolding a by (auto simp: mtime_of_def intro!: bexI[of _ e])
    next
      case False
      with assms(1) show ?thesis unfolding a by (auto intro!: bexI[of _ x])
    qed
  qed
qed

lemma add_games_distinct:
  "distinct (map app_id games) \<Longrightarrow> distinct (map app_id (add_games mt games news))"
  unfolding add_games_def
proof (induction news arbitrary: games)
  case Nil
  then show ?case by simp
next
  case (Cons n news)
  have "distinct (map app_id (add_game mt n games))"
    using Cons.prems by (simp add: add_game_ids)
  then show ?case using Cons.IH by simp
qed

lemma add_games_subset: "set (add_games mt games news) \<subseteq> set games \<union> set news"
  unfolding add_games_def
proof (induction news arbitrary: games)
  case Nil
  then show ?case by simp
next
  case (Cons n news)
  have "set (foldl (\<lambda>games new. add_game mt new games) (add_game mt n games) news)
          \<subseteq> set (add_game mt n games) \<union> set news"
    by (rule Cons.IH)
  with add_game_subset[of mt n games] show ?case by auto
qed

lemma add_games_ids:
  "set (map app_id (add_games mt games news)) = set (map app_id games) \<union> set (map app_id news)"
  unfolding add_games_def
proof (induction news arbitrary: games)
  case Nil
  then show ?case by simp
next
  case (Cons n news)
  have "set (map app_id (add_game mt n games)) = insert (app_id n) (set (map app_id games))"
    by (auto simp: add_game_ids)
  with Cons.IH[of "add_game mt n games"] show ?case by auto
qed

lemma add_games_covers:
  assumes "x \<in> set games \<union> set news"
    and "\<forall>g\<in>set games \<union> set news. mt (game_path g) \<noteq> None"
  shows "\<exists>k\<in>set (add_games mt games news). app_id k = app_id x \<and> mtime_of mt x \<le> mtime_of mt k"
  using assms unfolding add_games_def
proof (induction news arbitrary: games x)
  case Nil
  then show ?case by auto
next
  case (Cons n news)
  have r: "\<forall>g\<in>set (add_game mt n games) \<union> set news. mt (game_path g) \<noteq> None"
    using Cons.prems(2) add_game_subset[of mt n games] by auto
  show ?case
  proof (cases "x \<in> insert n (set games)")
    case True
    from add_game_covers[OF True, of mt] Cons.prems(2)
    obtain k where k: "k \<in> set (add_game mt n games)" "app_id k = app_id x"
      "mtime_of mt x \<le> mtime_of mt k" by auto
    then have "k \<in> set (add_game mt n games) \<union> set news" by simp
    from Cons.IH[OF this r] obtain k' where
      "k' \<in> set (foldl (\<lambda>games new. add_game mt new games) (add_game mt n games) news)"
      "app_id k' = app_id k" "mtime_of mt k \<le> mtime_of mt k'" by blast
    with k show ?thesis by (auto intro!: bexI[of _ k'])
  next
    case False
    with Cons.prems(1) have "x \<in> set (add_game mt n games) \<union> set news" by auto
    from Cons.IH[OF this r] show ?thesis by simp
  qed
qed

text \<open>
  Claim C6. With a Steam root, the list of games has exactly one record for each
  \<^verbatim>\<open>app_id\<close> that the manifests of the libraries yield: the \<^verbatim>\<open>app_id\<close>s of the
  result are distinct, every record of the result is one that a manifest yields, and
  every \<^verbatim>\<open>app_id\<close> a manifest yields is in the result. When the modification times of
  the install paths can be read, the record kept for an \<^verbatim>\<open>app_id\<close> is one whose install
  path is at least as recent as that of every manifest record with this \<^verbatim>\<open>app_id\<close>.
\<close>

theorem get_steam_games_one_record_per_app_id:
  assumes "steam \<noteq> None"
  shows "distinct (map app_id (get_steam_games steam fs st_mtime libraries))
       \<and> set (get_steam_games steam fs st_mtime libraries) \<subseteq> set (discovered fs libraries)
       \<and> set (map app_id (get_steam_games steam fs st_mtime libraries)) =
           set (map app_id (discovered fs libraries))
       \<and> ((\<forall>c\<in>set (discovered fs libraries). st_mtime (game_path c) \<noteq> None) \<longrightarrow>
            (\<forall>g\<in>set (get_steam_games steam fs st_mtime libraries).
               \<forall>c\<in>set (discovered fs libraries).
                 app_id c = app_id g \<longrightarrow> mtime_of st_mtime c \<le> mtime_of st_mtime g))"
proof -
  let ?D = "discovered fs libraries"
  let ?R = "add_games st_mtime [] ?D"
  from assms have out: "get_steam_games steam fs st_mtime libraries = sort_key game_name ?R"
    by (auto simp: get_steam_games_def scan_libraries_eq)
  have d: "distinct (map app_id ?R)" by (rule add_games_distinct) simp
  have sub: "set ?R \<subseteq> set ?D" using add_games_subset[of st_mtime "[]" ?D] by simp
  have ids: "set (map app_id ?R) = set (map app_id ?D)"
    using add_games_ids[of st_mtime "[]" ?D] by simp
  have newest: "mtime_of st_mtime c \<le> mtime_of st_mtime g"
    if r: "\<forall>c\<in>set ?D. st_mtime (game_path c) \<noteq> None"
      and g: "g \<in> set ?R" and c: "c \<in> set ?D" "app_id c = app_id g" for g c
  proof -
    from c have "c \<in> set [] \<union> set ?D" by simp
    moreover from r have "\<forall>g\<in>set [] \<union> set ?D. st_mtime (game_path g) \<noteq> None" by simp
    ultimately obtain k where k: "k \<in> set ?R" "app_id k = app_id c"
      "mtime_of st_mtime c \<le> mtime_of st_mtime k"
      using add_games_covers[of c "[]" ?D st_mtime] by blast
    from d have "inj_on app_id (set ?R)" by (simp add: distinct_map)
    with k g c have "k = g" by (auto dest: inj_onD)
    with k show ?thesis by simp
  qed
  have d': "distinct (map app_id (sort_key game_name ?R))"
    using d by (simp add: distinct_map)
  have s: "set (sort_key game_name ?R) = set ?R" by simp
  have i: "set (map app_id (sort_key game_name ?R)) = set (map app_id ?R)"
    by (simp only: set_map s)
  have c1: "set (sort_key game_name ?R) \<subseteq> set ?D" using sub by (simp only: s)
  have c2: "set (map app_id (sort_key game_name ?R)) = set (map app_id ?D)"
    using ids by (simp only: i)
  have c3: "(\<forall>c\<in>set ?D. st_mtime (game_path c) \<noteq> None) \<longrightarrow>
            (\<forall>g\<in>set (sort_key game_name ?R). \<forall>c\<in>set ?D.
                 app_id c = app_id g \<longrightarrow> mtime_of st_mtime c \<le> mtime_of st_mtime g)"
    unfolding s using newest by blast
  show ?thesis
    unfolding out by (intro conjI d' c1 c2 c3)
qed

text \<open>The theorem on the sample: of the two copies of the game 440 the newer one is kept.\<close>

theorem get_steam_games_one_record_per_app_id_witness:
  "get_steam_games (Some ''/steam'') sample_fs sample_mtime sample_libraries =
     [\<lparr>app_id = ''440'', game_name = ''Team Fortress 2'', install_dir = ''tf2'',
       game_path = ''/mnt/ext/steamapps/common/tf2'', library_path = ''/mnt/ext''\<rparr>]
   \<and> distinct (map app_id (get_steam_games (Some ''/steam'') sample_fs sample_mtime sample_libraries))
   \<and> mtime_of sample_mtime
       \<lparr>app_id = ''440'', game_name = ''Team Fortress 2'', install_dir = ''tf2'',
       game_path = ''/steam/steamapps/common/tf2'', library_path = ''/steam''\<rparr>
     \<le> mtime_of sample_mtime
       \<lparr>app_id = ''440'', game_name = ''Team Fortress 2'', install_dir = ''tf2'',
       game_path = ''/mnt/ext/steamapps/common/tf2'', library_path = ''/mnt/ext''\<rparr>"
proof -
  let ?out = "get_steam_games (Some ''/steam'') sample_fs sample_mtime sample_libraries"
  let ?old = "\<lparr>app_id = ''440'', game_name = ''Team Fortress 2'', install_dir = ''tf2'',
       game_path = ''/steam/steamapps/common/tf2'', library_path = ''/steam''\<rparr>"
  let ?new = "\<lparr>app_id = ''440'', game_name = ''Team Fortress 2'', install_dir = ''tf2'',
       game_path = ''/mnt/ext/steamapps/common/tf2'', library_path = ''/mnt/ext''\<rparr>"
  have r: "?out = [?new]"
    by code_simp
  have d: "discovered sample_fs sample_libraries = [?old, ?new]"
    by code_simp
  have m: "\<forall>c\<in>set (discovered sample_fs sample_libraries). sample_mtime (game_path c) \<noteq> None"
    unfolding d by (simp add: sample_mtime_def)
  note t = get_steam_games_one_record_per_app_id
    [of "Some ''/steam''" sample_fs sample_mtime sample_libraries]
  from t have c1: "distinct (map app_id ?out)" by simp
  from t m have "\<forall>g\<in>set ?out. \<forall>c\<in>set (discovered sample_fs sample_libraries).
      app_id c = app_id g \<longrightarrow> mtime_of sample_mtime c \<le> mtime_of sample_mtime g"
    by simp
  then have c2: "mtime_of sample_mtime ?old \<le> mtime_of sample_mtime ?new"
    unfolding r d by simp
  from r c1 c2 show ?thesis by simp
qed

text \<open>
  The scenario of the specification: a manifest with the \<^verbatim>\<open>appid\<close> 440 whose install
  directory exists gives one record with that \<^verbatim>\<open>app_id\<close>.
\<close>

lemma get_steam_games_scenario:
  "map app_id (get_steam_games (Some ''/steam'') sample_fs sample_mtime
     [(''/steam'', [''/steam/steamapps/appmanifest_440.acf''])]) = [''440'']"
  by code_simp

section \<open>Backup and restore\<close>

lemma no_slash_plain: "CHR ''/'' \<notin> set n \<Longrightarrow> \<not> startswith n ''/''"
  by (cases n) (auto simp: startswith_def)

lemma backup_name_no_slash: "CHR ''/'' \<notin> set n \<Longrightarrow> CHR ''/'' \<notin> set (backup_name n)"
  by (simp add: backup_name_def)

lemma pjoin_plain:
  "\<not> startswith n ''/'' \<Longrightarrow> pjoin d n = (if endswith d ''/'' then d else d @ ''/'') @ n"
  by (simp add: pjoin_def)

lemma backup_name_plain: "\<not> startswith n ''/'' \<Longrightarrow> \<not> startswith (backup_name n) ''/''"
  by (cases n) (auto simp: startswith_def backup_name_def)

lemma pjoin_inj:
  "\<not> startswith n ''/'' \<Longrightarrow> \<not> startswith n' ''/'' \<Longrightarrow> pjoin d n = pjoin d n' \<longleftrightarrow> n = n'"
  by (simp add: pjoin_plain)

lemma backup_name_inj: "backup_name n = backup_name n' \<longleftrightarrow> n = n'"
  by (simp add: backup_name_def)

lemma dropWhile_no_slash:
  "CHR ''/'' \<notin> set m \<Longrightarrow>
   dropWhile (\<lambda>c. c \<noteq> CHR ''/'') (rev m @ ys) = dropWhile (\<lambda>c. c \<noteq> CHR ''/'') ys"
  by (rule dropWhile_append2) auto

lemma dirname_pjoin_plain:
  assumes "CHR ''/'' \<notin> set n" "CHR ''/'' \<notin> set n'"
  shows "dirname (pjoin d n) = dirname (pjoin d n')"
proof -
  let ?pre = "(if endswith d ''/'' then d else d @ ''/'')"
  have ne: "?pre \<noteq> []" by (auto simp: endswith_def suffix_def)
  have p: "pjoin d m = ?pre @ m" if "CHR ''/'' \<notin> set m" for m
    using that by (simp add: pjoin_plain no_slash_plain)
  have dw: "dropWhile (\<lambda>c. c \<noteq> CHR ''/'') (rev (?pre @ m)) =
            dropWhile (\<lambda>c. c \<noteq> CHR ''/'') (rev ?pre)" if "CHR ''/'' \<notin> set m" for m
    using that by (simp add: dropWhile_no_slash)
  have sw: "startswith (?pre @ m) ''/'' = startswith ?pre ''/''" for m
    using ne by (cases ?pre) (auto simp: startswith_def)
  have "dirname (?pre @ m) = dirname ?pre" if "CHR ''/'' \<notin> set m" for m
    unfolding dirname_def dw[OF that] sw dw[of "[]", simplified] ..
  with assms p show ?thesis by simp
qed

lemma orig_neq_bak:
  assumes "plain_names ns" "n \<in> set ns" "n' \<in> set ns"
  shows "pjoin d n \<noteq> pjoin d (backup_name n')"
proof -
  from assms have "\<not> startswith n ''/''" "\<not> startswith (backup_name n') ''/''" "n \<noteq> backup_name n'"
    by (auto simp: plain_names_def backup_name_plain no_slash_plain)
  then show ?thesis by (simp add: pjoin_inj)
qed

lemma bak_inj:
  assumes "plain_names ns" "n \<in> set ns" "n' \<in> set ns"
  shows "pjoin d (backup_name n) = pjoin d (backup_name n') \<longleftrightarrow> n = n'"
proof -
  from assms have "\<not> startswith (backup_name n) ''/''" "\<not> startswith (backup_name n') ''/''"
    by (auto simp: plain_names_def backup_name_plain no_slash_plain)
  then show ?thesis by (simp add: pjoin_inj backup_name_inj)
qed

lemma orig_inj:
  assumes "plain_names ns" "n \<in> set ns" "n' \<in> set ns"
  shows "pjoin d n = pjoin d n' \<longleftrightarrow> n = n'"
  using assms by (auto simp: plain_names_def pjoin_inj no_slash_plain)

lemma plain_names_Cons: "plain_names (n # ns) \<Longrightarrow> plain_names ns \<and> n \<notin> set ns"
  by (auto simp: plain_names_def)

lemma dict_set_fresh: "k \<notin> fst ` set d \<Longrightarrow> dict_set d k v = d @ [(k, v)]"
  by (induction d) auto

lemma copy2_file:
  assumes "nodes fs src = Some (File data)" "nodes fs dst = None" "\<not> refused fs dst" "src \<noteq> dst"
    and "dirname dst = dirname src"
  shows "copy2 fs src dst = Inr (put fs dst (Some (File data)))"
  using assms by (simp add: copy2_def is_dir_def store_def)

lemma move_file:
  assumes "nodes fs src = Some (File data)" "nodes fs dst \<noteq> Some Dir"
    "\<not> refused fs src" "\<not> refused fs dst"
  shows "move fs src dst = Inr (put (put fs dst (Some (File data))) src None)"
  using assms by (simp add: move_def rename_def is_dir_def)

lemma nodes_put: "nodes (put fs p v) q = (if q = p then v else nodes fs q)"
  by (simp add: put_def)

lemma refused_put: "refused (put fs p v) = refused fs"
  by (simp add: put_def)

lemma backup_loop_result:
  assumes "plain_names ns"
    and "\<forall>n\<in>set ns. nodes fs (pjoin d n) \<noteq> Some Dir"
    and "\<forall>n\<in>set ns. nodes fs (pjoin d (backup_name n)) = None"
    and "\<forall>n\<in>set ns. \<not> refused fs (pjoin d (backup_name n))"
    and "fst ` set acc \<inter> set ns = {}"
  shows "\<exists>fs1. backup_loop d ns acc fs =
            Inr (acc @ map (\<lambda>n. (n, pjoin d (backup_name n))) (filter (\<lambda>n. exists fs (pjoin d n)) ns), fs1)
          \<and> (\<forall>p. (\<forall>n\<in>set ns. p \<noteq> pjoin d (backup_name n)) \<longrightarrow> nodes fs1 p = nodes fs p)
          \<and> (\<forall>n\<in>set ns. nodes fs1 (pjoin d (backup_name n)) = nodes fs (pjoin d n))
          \<and> refused fs1 = refused fs"
  using assms
proof (induction ns arbitrary: fs acc)
  case Nil
  then show ?case by simp
next
  case (Cons n ns)
  from Cons.prems(1) have pn: "plain_names ns" "n \<notin> set ns" "plain_names (n # ns)"
    by (auto dest: plain_names_Cons)
  let ?o = "pjoin d n" and ?b = "pjoin d (backup_name n)"
  have ob: "?o \<noteq> ?b" using orig_neq_bak[OF pn(3), of n n] by simp
  have o_other: "\<forall>n'\<in>set ns. pjoin d n' \<noteq> ?b"
    using orig_neq_bak[OF pn(3)] by simp
  have b_other: "\<forall>n'\<in>set ns. pjoin d (backup_name n') \<noteq> ?b"
    using bak_inj[OF pn(3)] pn(2) by auto
  show ?case
  proof (cases "exists fs ?o")
    case False
    then have none: "nodes fs ?o = None" by (simp add: exists_def)
    from Cons.prems have
      "\<exists>fs1. backup_loop d ns acc fs =
            Inr (acc @ map (\<lambda>n. (n, pjoin d (backup_name n))) (filter (\<lambda>n. exists fs (pjoin d n)) ns), fs1)
          \<and> (\<forall>p. (\<forall>n\<in>set ns. p \<noteq> pjoin d (backup_name n)) \<longrightarrow> nodes fs1 p = nodes fs p)
          \<and> (\<forall>n\<in>set ns. nodes fs1 (pjoin d (backup_name n)) = nodes fs (pjoin d n))
          \<and> refused fs1 = refused fs"
      by (intro Cons.IH pn(1)) auto
    then obtain fs1 where fs1:
      "backup_loop d ns acc fs =
            Inr (acc @ map (\<lambda>n. (n, pjoin d (backup_name n))) (filter (\<lambda>n. exists fs (pjoin d n)) ns), fs1)"
      "\<forall>p. (\<forall>n\<in>set ns. p \<noteq> pjoin d (backup_name n)) \<longrightarrow> nodes fs1 p = nodes fs p"
      "\<forall>n\<in>set ns. nodes fs1 (pjoin d (backup_name n)) = nodes fs (pjoin d n)"
      "refused fs1 = refused fs" by blast
    from fs1(2) b_other have "nodes fs1 ?b = nodes fs ?b" by metis
    with Cons.prems(3) none have nb: "nodes fs1 ?b = nodes fs ?o" by simp
    show ?thesis
      using False fs1 nb by (intro exI[of _ fs1]) (simp add: Let_def)
  next
    case True
    with Cons.prems(2) obtain data where data: "nodes fs ?o = Some (File data)"
      by (cases "nodes fs ?o") (auto simp: exists_def, case_tac a, auto)
    let ?fs' = "put fs ?b (Some (File data))"
    have "CHR ''/'' \<notin> set n" using pn(3) by (simp add: plain_names_def)
    then have dn: "dirname ?b = dirname ?o"
      by (intro dirname_pjoin_plain backup_name_no_slash)
    have cp: "copy2 fs ?o ?b = Inr ?fs'"
      using data Cons.prems(3,4) ob dn by (intro copy2_file) auto
    have fresh: "n \<notin> fst ` set acc" using Cons.prems(5) by auto
    have same: "\<forall>n'\<in>set ns. exists ?fs' (pjoin d n') = exists fs (pjoin d n')"
      using o_other by (simp add: exists_def nodes_put)
    have "\<exists>fs1. backup_loop d ns (acc @ [(n, ?b)]) ?fs' =
            Inr ((acc @ [(n, ?b)]) @ map (\<lambda>n. (n, pjoin d (backup_name n)))
                   (filter (\<lambda>n. exists ?fs' (pjoin d n)) ns), fs1)
          \<and> (\<forall>p. (\<forall>n\<in>set ns. p \<noteq> pjoin d (backup_name n)) \<longrightarrow> nodes fs1 p = nodes ?fs' p)
          \<and> (\<forall>n\<in>set ns. nodes fs1 (pjoin d (backup_name n)) = nodes ?fs' (pjoin d n))
          \<and> refused fs1 = refused ?fs'"
    proof (intro Cons.IH pn(1))
      show "\<forall>n\<in>set ns. nodes ?fs' (pjoin d n) \<noteq> Some Dir"
        using Cons.prems(2) o_other by (simp add: nodes_put)
      show "\<forall>n\<in>set ns. nodes ?fs' (pjoin d (backup_name n)) = None"
        using Cons.prems(3) b_other by (simp add: nodes_put)
      show "\<forall>n\<in>set ns. \<not> refused ?fs' (pjoin d (backup_name n))"
        using Cons.prems(4) by (simp add: refused_put)
      show "fst ` set (acc @ [(n, ?b)]) \<inter> set ns = {}"
        using Cons.prems(5) pn(2) by auto
    qed
    then obtain fs1 where fs1:
      "backup_loop d ns (acc @ [(n, ?b)]) ?fs' =
            Inr ((acc @ [(n, ?b)]) @ map (\<lambda>n. (n, pjoin d (backup_name n)))
                   (filter (\<lambda>n. exists ?fs' (pjoin d n)) ns), fs1)"
      "\<forall>p. (\<forall>n\<in>set ns. p \<noteq> pjoin d (backup_name n)) \<longrightarrow> nodes fs1 p = nodes ?fs' p"
      "\<forall>n\<in>set ns. nodes fs1 (pjoin d (backup_name n)) = nodes ?fs' (pjoin d n)"
      "refused fs1 = refused ?fs'" by blast
    have flt: "filter (\<lambda>n. exists ?fs' (pjoin d n)) ns = filter (\<lambda>n. exists fs (pjoin d n)) ns"
      using same by (auto intro: filter_cong)
    have r1: "backup_loop d (n # ns) acc fs =
        Inr (acc @ map (\<lambda>n. (n, pjoin d (backup_name n)))
                 (filter (\<lambda>n. exists fs (pjoin d n)) (n # ns)), fs1)"
      using True cp fs1(1) fresh by (simp add: Let_def dict_set_fresh flt)
    have r2: "\<forall>p. (\<forall>n'\<in>set (n # ns). p \<noteq> pjoin d (backup_name n')) \<longrightarrow> nodes fs1 p = nodes fs p"
      using fs1(2) by (auto simp: nodes_put)
    have "nodes fs1 ?b = nodes ?fs' ?b" using fs1(2) b_other by metis
    then have r3a: "nodes fs1 ?b = nodes fs ?o" using data by (simp add: nodes_put)
    have r3b: "\<forall>n'\<in>set ns. nodes fs1 (pjoin d (backup_name n')) = nodes fs (pjoin d n')"
      using fs1(3) o_other by (simp add: nodes_put)
    have r4: "refused fs1 = refused fs" using fs1(4) by (simp add: refused_put)
    show ?thesis
      using r1 r2 r3a r3b r4 by (intro exI[of _ fs1]) simp
  qed
qed

lemma restore_loop_result:
  assumes "plain_names ns" "set ps \<subseteq> set ns" "distinct ps"
    and "\<forall>n\<in>set ps. \<exists>data. nodes fs (pjoin d (backup_name n)) = Some (File data)"
    and "\<forall>n\<in>set ps. nodes fs (pjoin d n) \<noteq> Some Dir"
    and "\<forall>n\<in>set ps. \<not> refused fs (pjoin d n) \<and> \<not> refused fs (pjoin d (backup_name n))"
  shows "\<exists>fs2. restore_loop d (map (\<lambda>n. (n, pjoin d (backup_name n))) ps) fs = Inr fs2
          \<and> (\<forall>p. (\<forall>n\<in>set ps. p \<noteq> pjoin d n \<and> p \<noteq> pjoin d (backup_name n)) \<longrightarrow>
                 nodes fs2 p = nodes fs p)
          \<and> (\<forall>n\<in>set ps. nodes fs2 (pjoin d n) = nodes fs (pjoin d (backup_name n)) \<and>
                 nodes fs2 (pjoin d (backup_name n)) = None)
          \<and> refused fs2 = refused fs"
  using assms(2-)
proof (induction ps arbitrary: fs)
  case Nil
  then show ?case by simp
next
  case (Cons n ps)
  note pn = assms(1)
  let ?o = "pjoin d n" and ?b = "pjoin d (backup_name n)"
  from Cons.prems have mem: "n \<in> set ns" "set ps \<subseteq> set ns" "n \<notin> set ps" "distinct ps" by auto
  from Cons.prems(3) obtain data where data: "nodes fs ?b = Some (File data)" by auto
  let ?fs' = "put (put fs ?o (Some (File data))) ?b None"
  have mv: "move fs ?b ?o = Inr ?fs'"
    using data Cons.prems(4,5) by (intro move_file) auto
  have ob: "?o \<noteq> ?b" using orig_neq_bak[OF pn mem(1) mem(1)] .
  have d1: "\<forall>n'\<in>set ps. pjoin d n' \<noteq> ?o \<and> pjoin d n' \<noteq> ?b"
    using orig_inj[OF pn _ mem(1)] orig_neq_bak[OF pn _ mem(1)] mem by blast
  have d2: "\<forall>n'\<in>set ps. pjoin d (backup_name n') \<noteq> ?o \<and> pjoin d (backup_name n') \<noteq> ?b"
    using bak_inj[OF pn _ mem(1)] orig_neq_bak[OF pn mem(1)] mem by (metis subsetD)
  have "\<exists>fs2. restore_loop d (map (\<lambda>n. (n, pjoin d (backup_name n))) ps) ?fs' = Inr fs2
          \<and> (\<forall>p. (\<forall>n\<in>set ps. p \<noteq> pjoin d n \<and> p \<noteq> pjoin d (backup_name n)) \<longrightarrow>
                 nodes fs2 p = nodes ?fs' p)
          \<and> (\<forall>n\<in>set ps. nodes fs2 (pjoin d n) = nodes ?fs' (pjoin d (backup_name n)) \<and>
                 nodes fs2 (pjoin d (backup_name n)) = None)
          \<and> refused fs2 = refused ?fs'"
  proof (intro Cons.IH mem(2) mem(4))
    show "\<forall>n\<in>set ps. \<exists>data. nodes ?fs' (pjoin d (backup_name n)) = Some (File data)"
      using Cons.prems(3) d2 by (simp add: nodes_put)
    show "\<forall>n\<in>set ps. nodes ?fs' (pjoin d n) \<noteq> Some Dir"
      using Cons.prems(4) d1 by (simp add: nodes_put)
    show "\<forall>n\<in>set ps. \<not> refused ?fs' (pjoin d n) \<and> \<not> refused ?fs' (pjoin d (backup_name n))"
      using Cons.prems(5) by (simp add: refused_put)
  qed
  then obtain fs2 where fs2:
    "restore_loop d (map (\<lambda>n. (n, pjoin d (backup_name n))) ps) ?fs' = Inr fs2"
    "\<forall>p. (\<forall>n\<in>set ps. p \<noteq> pjoin d n \<and> p \<noteq> pjoin d (backup_name n)) \<longrightarrow> nodes fs2 p = nodes ?fs' p"
    "\<forall>n\<in>set ps. nodes fs2 (pjoin d n) = nodes ?fs' (pjoin d (backup_name n)) \<and>
                 nodes fs2 (pjoin d (backup_name n)) = None"
    "refused fs2 = refused ?fs'" by blast
  have r1: "restore_loop d (map (\<lambda>n. (n, pjoin d (backup_name n))) (n # ps)) fs = Inr fs2"
    using data mv fs2(1) by (simp add: exists_def)
  have r2: "\<forall>p. (\<forall>n'\<in>set (n # ps). p \<noteq> pjoin d n' \<and> p \<noteq> pjoin d (backup_name n')) \<longrightarrow>
                 nodes fs2 p = nodes fs p"
    using fs2(2) by (auto simp: nodes_put)
  have "nodes fs2 ?o = nodes ?fs' ?o" "nodes fs2 ?b = nodes ?fs' ?b"
    using fs2(2) d1 d2 by metis+
  then have r3a: "nodes fs2 ?o = nodes fs ?b" "nodes fs2 ?b = None"
    using data ob by (simp_all add: nodes_put)
  have r3b: "\<forall>n'\<in>set ps. nodes fs2 (pjoin d n') = nodes fs (pjoin d (backup_name n')) \<and>
                 nodes fs2 (pjoin d (backup_name n')) = None"
    using fs2(3) d2 by (simp add: nodes_put)
  have r4: "refused fs2 = refused fs" using fs2(4) by (simp add: refused_put)
  show ?case
    using r1 r2 r3a r3b r4 by (intro exI[of _ fs2]) simp
qed

lemma plain_files_to_backup: "plain_names files_to_backup"
  by (simp add: plain_names_def files_to_backup_def backup_name_def)

text \<open>
  Claim C8. Let each of the five vendor names in the target directory be a file or
  absent, let none of their backup names exist yet, and let the host refuse no write to
  these paths. Then \<^verbatim>\<open>backup_original_files\<close> succeeds, its map has exactly the names
  that are present, in the order of the list, each backup holds the bytes of its
  original, and the restore loop of the uninstall, run on that map, succeeds and gives
  back the file system from before the backup: every original name has its bytes and
  no backup file is left.
\<close>

theorem backup_restore_round_trip:
  assumes files: "\<forall>n\<in>set files_to_backup. nodes fs (pjoin d n) \<noteq> Some Dir"
    and no_backups: "\<forall>n\<in>set files_to_backup. nodes fs (pjoin d (backup_name n)) = None"
    and writable: "\<forall>n\<in>set files_to_backup.
        \<not> refused fs (pjoin d n) \<and> \<not> refused fs (pjoin d (backup_name n))"
  shows "\<exists>m fs1. backup_original_files fs d = Inr (m, fs1)
           \<and> map fst m = filter (\<lambda>n. exists fs (pjoin d n)) files_to_backup
           \<and> (\<forall>n\<in>set files_to_backup. nodes fs1 (pjoin d (backup_name n)) = nodes fs (pjoin d n))
           \<and> restore_loop d m fs1 = Inr fs"
proof -
  let ?ns = files_to_backup
  let ?ps = "filter (\<lambda>n. exists fs (pjoin d n)) ?ns"
  let ?m = "map (\<lambda>n. (n, pjoin d (backup_name n))) ?ps"
  note pn = plain_files_to_backup
  have "\<exists>fs1. backup_loop d ?ns [] fs = Inr ([] @ ?m, fs1)
          \<and> (\<forall>p. (\<forall>n\<in>set ?ns. p \<noteq> pjoin d (backup_name n)) \<longrightarrow> nodes fs1 p = nodes fs p)
          \<and> (\<forall>n\<in>set ?ns. nodes fs1 (pjoin d (backup_name n)) = nodes fs (pjoin d n))
          \<and> refused fs1 = refused fs"
    using pn files no_backups writable by (intro backup_loop_result) auto
  then obtain fs1 where b:
    "backup_original_files fs d = Inr (?m, fs1)"
    "\<forall>p. (\<forall>n\<in>set ?ns. p \<noteq> pjoin d (backup_name n)) \<longrightarrow> nodes fs1 p = nodes fs p"
    "\<forall>n\<in>set ?ns. nodes fs1 (pjoin d (backup_name n)) = nodes fs (pjoin d n)"
    "refused fs1 = refused fs"
    by (auto simp: backup_original_files_def)
  have sub: "set ?ps \<subseteq> set ?ns" by auto
  have same_orig: "nodes fs1 (pjoin d n) = nodes fs (pjoin d n)" if "n \<in> set ?ns" for n
  proof -
    have "\<forall>n'\<in>set ?ns. pjoin d n \<noteq> pjoin d (backup_name n')"
      using orig_neq_bak[OF pn that] by blast
    with b(2) show ?thesis by blast
  qed
  have present: "\<exists>data. nodes fs (pjoin d n) = Some (File data)" if "n \<in> set ?ps" for n
  proof -
    from that have "n \<in> set ?ns" "nodes fs (pjoin d n) \<noteq> None" by (auto simp: exists_def)
    with files show ?thesis
      by (cases "nodes fs (pjoin d n)") (auto, case_tac a, auto)
  qed
  have "\<exists>fs2. restore_loop d ?m fs1 = Inr fs2
          \<and> (\<forall>p. (\<forall>n\<in>set ?ps. p \<noteq> pjoin d n \<and> p \<noteq> pjoin d (backup_name n)) \<longrightarrow>
                 nodes fs2 p = nodes fs1 p)
          \<and> (\<forall>n\<in>set ?ps. nodes fs2 (pjoin d n) = nodes fs1 (pjoin d (backup_name n)) \<and>
                 nodes fs2 (pjoin d (backup_name n)) = None)
          \<and> refused fs2 = refused fs1"
  proof (intro restore_loop_result[OF pn sub])
    show "distinct ?ps" using pn by (simp add: plain_names_def)
    show "\<forall>n\<in>set ?ps. \<exists>data. nodes fs1 (pjoin d (backup_name n)) = Some (File data)"
      using b(3) present sub by (metis subsetD)
    show "\<forall>n\<in>set ?ps. nodes fs1 (pjoin d n) \<noteq> Some Dir"
      using same_orig files sub by (metis subsetD)
    show "\<forall>n\<in>set ?ps. \<not> refused fs1 (pjoin d n) \<and> \<not> refused fs1 (pjoin d (backup_name n))"
      using writable sub b(4) by auto
  qed
  then obtain fs2 where r:
    "restore_loop d ?m fs1 = Inr fs2"
    "\<forall>p. (\<forall>n\<in>set ?ps. p \<noteq> pjoin d n \<and> p \<noteq> pjoin d (backup_name n)) \<longrightarrow> nodes fs2 p = nodes fs1 p"
    "\<forall>n\<in>set ?ps. nodes fs2 (pjoin d n) = nodes fs1 (pjoin d (backup_name n)) \<and>
                 nodes fs2 (pjoin d (backup_name n)) = None"
    "refused fs2 = refused fs1" by blast
  have "nodes fs2 p = nodes fs p" for p
  proof (cases "\<exists>n\<in>set ?ps. p = pjoin d n \<or> p = pjoin d (backup_name n)")
    case True
    then obtain n where n: "n \<in> set ?ps" "p = pjoin d n \<or> p = pjoin d (backup_name n)" by blast
    then have nn: "n \<in> set ?ns" by simp
    from n(2) show ?thesis
    proof
      assume "p = pjoin d n"
      with r(3) n(1) b(3) nn show ?thesis by simp
    next
      assume "p = pjoin d (backup_name n)"
      with r(3) n(1) no_backups nn show ?thesis by simp
    qed
  next
    case False
    with r(2) have e: "nodes fs2 p = nodes fs1 p" by blast
    show ?thesis
    proof (cases "\<exists>n\<in>set ?ns. p = pjoin d (backup_name n)")
      case True
      then obtain n where n: "n \<in> set ?ns" "p = pjoin d (backup_name n)" by blast
      with False have "n \<notin> set ?ps" by blast
      with n(1) have "nodes fs (pjoin d n) = None" by (simp add: exists_def)
      with b(3) n no_backups e show ?thesis by simp
    next
      case False
      with b(2) e show ?thesis by auto
    qed
  qed
  then have "nodes fs2 = nodes fs" by (rule ext)
  with r(4) b(4) have "fs2 = fs" by (simp add: filesystem.equality)
  with r(1) have restored: "restore_loop d ?m fs1 = Inr fs" by simp
  have keys: "map fst ?m = ?ps" by (simp add: comp_def)
  show ?thesis
    using b(1) b(3) restored keys by (intro exI[of _ ?m] exI[of _ fs1]) simp
qed

theorem backup_restore_round_trip_witness:
  "\<exists>m fs1. backup_original_files sample_target ''/games/Foo'' = Inr (m, fs1)
      \<and> map fst m = [''nvngx.dll'', ''libxess.dll'']
      \<and> nodes fs1 ''/games/Foo/nvngx.dll.optiscaler_backup'' = Some (File ''NV'')
      \<and> restore_loop ''/games/Foo'' m fs1 = Inr sample_target"
proof -
  have h1: "\<forall>n\<in>set files_to_backup. nodes sample_target (pjoin ''/games/Foo'' n) \<noteq> Some Dir"
    by (simp add: files_to_backup_def sample_target_def pjoin_def startswith_def endswith_def
        suffix_def)
  have h2: "\<forall>n\<in>set files_to_backup.
      nodes sample_target (pjoin ''/games/Foo'' (backup_name n)) = None"
    by (simp add: files_to_backup_def sample_target_def pjoin_def startswith_def endswith_def
        suffix_def backup_name_def)
  have h3: "\<forall>n\<in>set files_to_backup.
      \<not> refused sample_target (pjoin ''/games/Foo'' n) \<and>
      \<not> refused sample_target (pjoin ''/games/Foo'' (backup_name n))"
    by (simp add: sample_target_def)
  from backup_restore_round_trip[OF h1 h2 h3] obtain m fs1 where r:
    "backup_original_files sample_target ''/games/Foo'' = Inr (m, fs1)"
    "map fst m = filter (\<lambda>n. exists sample_target (pjoin ''/games/Foo'' n)) files_to_backup"
    "\<forall>n\<in>set files_to_backup.
       nodes fs1 (pjoin ''/games/Foo'' (backup_name n)) = nodes sample_target (pjoin ''/games/Foo'' n)"
    "restore_loop ''/games/Foo'' m fs1 = Inr sample_target"
    by blast
  have k: "map fst m = [''nvngx.dll'', ''libxess.dll'']"
    unfolding r(2)
    by (simp add: files_to_backup_def sample_target_def pjoin_def startswith_def endswith_def
        suffix_def exists_def)
  from r(3) have "nodes fs1 (pjoin ''/games/Foo'' (backup_name ''nvngx.dll'')) =
      nodes sample_target (pjoin ''/games/Foo'' ''nvngx.dll'')"
    by (simp add: files_to_backup_def)
  then have b: "nodes fs1 ''/games/Foo/nvngx.dll.optiscaler_backup'' = Some (File ''NV'')"
    by (simp add: sample_target_def pjoin_def startswith_def endswith_def suffix_def
        backup_name_def)
  show ?thesis
    by (rule exI[of _ m], rule exI[of _ fs1]) (simp only: r(1) k b r(4) simp_thms)
qed

section \<open>Auxiliary asset manager\<close>

lemma mkdirs_dirs:
  "mkdirs fs ds = Inr fs' \<Longrightarrow>
   (\<forall>d\<in>set ds. is_dir fs' d) \<and> (\<forall>p. is_dir fs p \<longrightarrow> is_dir fs' p)"
proof (induction ds arbitrary: fs)
  case Nil
  then show ?case by simp
next
  case (Cons d ds)
  show ?case
  proof (cases "nodes fs d")
    case None
    with Cons.prems have m: "mkdirs (put fs d (Some Dir)) ds = Inr fs'"
      by (simp split: if_splits)
    from Cons.IH[OF m] show ?thesis
      by (auto simp: is_dir_def put_def)
  next
    case (Some n)
    with Cons.prems obtain m: "mkdirs fs ds = Inr fs'" and n: "n = Dir"
      by (cases n) auto
    from Cons.IH[OF m] Some n show ?thesis
      by (auto simp: is_dir_def)
  qed
qed

lemma mkdirs_system32:
  "mkdirs fs (system32_chain c) = Inr fs' \<Longrightarrow> is_dir fs' (system32_path c)"
  by (drule mkdirs_dirs) (simp add: system32_chain_def)

lemma copy_asset_success:
  assumes "copy_asset mgr fs dst = Inr fs'"
  shows "\<exists>p data. fsr4_dll_path mgr = Some p \<and> nodes fs p = Some (File data) \<and>
           (\<not> is_dir fs dst \<longrightarrow> nodes fs' dst = Some (File data)) \<and>
           (\<forall>q. is_dir fs q \<longrightarrow> is_dir fs' q)"
  using assms
  by (auto simp: copy_asset_def copy2_def write_file_def store_def put_def is_dir_def Let_def
      split: option.splits node.splits if_splits)

text \<open>
  Claim C9, as the code has it. \<^verbatim>\<open>copy_fsr4_dll_to_compatdata\<close> returns failure in two
  cases: no active asset exists and the selection it triggers does not give one (the
  operator cancels, types no valid number, or gives no usable custom path), in which
  case neither the directory is made nor a copy tried; or the asset is there, the
  system directory has been made and exists, and the copy raises. It returns success
  exactly when an asset is there (cached, or just selected), the directory chain is made,
  so that the system directory exists, and the copy succeeds; then the system directory
  still exists, the active asset is a file, and the target holds its bytes (unless the
  target was a directory, into which the copy goes). An exception of the selection's
  own copy or of \<^verbatim>\<open>mkdir\<close> is not caught and leaves the function.
\<close>

theorem copy_fsr4_dll_to_compatdata_outcomes:
  "(copy_fsr4_dll_to_compatdata mgr fs versions op appid compatdata_path = Inr (False, mgr', fs')
      \<longleftrightarrow>
        ensure_asset mgr fs versions op = Inr (False, mgr', fs')
      \<or> (\<exists>fs1 e. ensure_asset mgr fs versions op = Inr (True, mgr', fs1) \<and>
            mkdirs fs1 (system32_chain compatdata_path) = Inr fs' \<and>
            is_dir fs' (system32_path compatdata_path) \<and>
            copy_asset mgr' fs' (target_dll compatdata_path) = Inl e))
   \<and> (copy_fsr4_dll_to_compatdata mgr fs versions op appid compatdata_path = Inr (True, mgr', fs')
      \<longleftrightarrow>
        (\<exists>fs1 fs2 p data. ensure_asset mgr fs versions op = Inr (True, mgr', fs1) \<and>
            mkdirs fs1 (system32_chain compatdata_path) = Inr fs2 \<and>
            is_dir fs2 (system32_path compatdata_path) \<and>
            copy_asset mgr' fs2 (target_dll compatdata_path) = Inr fs' \<and>
            is_dir fs' (system32_path compatdata_path) \<and>
            fsr4_dll_path mgr' = Some p \<and> nodes fs2 p = Some (File data) \<and>
            (\<not> is_dir fs2 (target_dll compatdata_path) \<longrightarrow>
               nodes fs' (target_dll compatdata_path) = Some (File data))))
   \<and> (copy_fsr4_dll_to_compatdata mgr fs versions op appid compatdata_path = Inl err
      \<longleftrightarrow>
        ensure_asset mgr fs versions op = Inl err
      \<or> (\<exists>mgr1 fs1. ensure_asset mgr fs versions op = Inr (True, mgr1, fs1) \<and>
            mkdirs fs1 (system32_chain compatdata_path) = Inl err))
   \<and> (ensure_asset mgr fs versions op = Inr (False, mgr', fs')
      \<longleftrightarrow> asset_missing mgr fs \<and> select_fsr4_version mgr fs versions op = Inr (False, mgr', fs'))"
proof (intro conjI)
  let ?r = "copy_fsr4_dll_to_compatdata mgr fs versions op appid compatdata_path"
  let ?e = "ensure_asset mgr fs versions op"
  let ?chain = "system32_chain compatdata_path"
  let ?s32 = "system32_path compatdata_path"
  let ?t = "target_dll compatdata_path"
  have f: "?r = Inr (False, mgr', fs') \<longleftrightarrow>
        ?e = Inr (False, mgr', fs')
      \<or> (\<exists>fs1 e. ?e = Inr (True, mgr', fs1) \<and> mkdirs fs1 ?chain = Inr fs' \<and>
            copy_asset mgr' fs' ?t = Inl e)"
    by (auto simp: copy_fsr4_dll_to_compatdata_def split: sum.splits if_splits prod.splits)
  show "?r = Inr (False, mgr', fs') \<longleftrightarrow>
        ?e = Inr (False, mgr', fs')
      \<or> (\<exists>fs1 e. ?e = Inr (True, mgr', fs1) \<and> mkdirs fs1 ?chain = Inr fs' \<and>
            is_dir fs' ?s32 \<and> copy_asset mgr' fs' ?t = Inl e)"
    unfolding f using mkdirs_system32 by blast
  have t: "?r = Inr (True, mgr', fs') \<longleftrightarrow>
        (\<exists>fs1 fs2. ?e = Inr (True, mgr', fs1) \<and> mkdirs fs1 ?chain = Inr fs2 \<and>
            copy_asset mgr' fs2 ?t = Inr fs')"
    by (auto simp: copy_fsr4_dll_to_compatdata_def split: sum.splits if_splits prod.splits)
  show "?r = Inr (True, mgr', fs') \<longleftrightarrow>
        (\<exists>fs1 fs2 p data. ?e = Inr (True, mgr', fs1) \<and> mkdirs fs1 ?chain = Inr fs2 \<and>
            is_dir fs2 ?s32 \<and> copy_asset mgr' fs2 ?t = Inr fs' \<and> is_dir fs' ?s32 \<and>
            fsr4_dll_path mgr' = Some p \<and> nodes fs2 p = Some (File data) \<and>
            (\<not> is_dir fs2 ?t \<longrightarrow> nodes fs' ?t = Some (File data)))"
  proof
    assume "?r = Inr (True, mgr', fs')"
    with t obtain fs1 fs2 where a: "?e = Inr (True, mgr', fs1)" "mkdirs fs1 ?chain = Inr fs2"
      "copy_asset mgr' fs2 ?t = Inr fs'" by blast
    from a(2) have d: "is_dir fs2 ?s32" by (rule mkdirs_system32)
    from copy_asset_success[OF a(3)] obtain p data where
      c: "fsr4_dll_path mgr' = Some p" "nodes fs2 p = Some (File data)"
      "\<not> is_dir fs2 ?t \<longrightarrow> nodes fs' ?t = Some (File data)"
      "\<forall>q. is_dir fs2 q \<longrightarrow> is_dir fs' q" by blast
    from c(4) d have "is_dir fs' ?s32" by simp
    with a d c show "\<exists>fs1 fs2 p data. ?e = Inr (True, mgr', fs1) \<and> mkdirs fs1 ?chain = Inr fs2 \<and>
            is_dir fs2 ?s32 \<and> copy_asset mgr' fs2 ?t = Inr fs' \<and> is_dir fs' ?s32 \<and>
            fsr4_dll_path mgr' = Some p \<and> nodes fs2 p = Some (File data) \<and>
            (\<not> is_dir fs2 ?t \<longrightarrow> nodes fs' ?t = Some (File data))"
      by blast
  next
    assume "\<exists>fs1 fs2 p data. ?e = Inr (True, mgr', fs1) \<and> mkdirs fs1 ?chain = Inr fs2 \<and>
            is_dir fs2 ?s32 \<and> copy_asset mgr' fs2 ?t = Inr fs' \<and> is_dir fs' ?s32 \<and>
            fsr4_dll_path mgr' = Some p \<and> nodes fs2 p = Some (File data) \<and>
            (\<not> is_dir fs2 ?t \<longrightarrow> nodes fs' ?t = Some (File data))"
    with t show "?r = Inr (True, mgr', fs')" by blast
  qed
  show "?r = Inl err \<longleftrightarrow>
        ?e = Inl err
      \<or> (\<exists>mgr1 fs1. ?e = Inr (True, mgr1, fs1) \<and> mkdirs fs1 ?chain = Inl err)"
    by (auto simp: copy_fsr4_dll_to_compatdata_def split: sum.splits if_splits prod.splits)
  show "?e = Inr (False, mgr', fs')
      \<longleftrightarrow> asset_missing mgr fs \<and> select_fsr4_version mgr fs versions op = Inr (False, mgr', fs')"
    by (auto simp: ensure_asset_def)
qed

text \<open>
  The theorem on the sample, the configuration directory being in place and the operator
  choosing the bundled version: the selection gives the asset, the directories are made
  and the asset is copied there.
\<close>

theorem copy_fsr4_dll_to_compatdata_outcomes_witness:
  "\<exists>fs1 fs2 fs'.
     ensure_asset sample_manager sample_assets sample_versions
       \<lparr>version_choice = Some 1, custom_answer = ''n'', custom_path = ''''\<rparr> =
       Inr (True, sample_manager\<lparr>fsr4_dll_path := Some ''/home/u/.config/optiscaler/amdxcffx64.dll''\<rparr>, fs1)
     \<and> mkdirs fs1 (system32_chain sample_compatdata) = Inr fs2
     \<and> is_dir fs2 (system32_path sample_compatdata)
     \<and> copy_asset (sample_manager\<lparr>fsr4_dll_path := Some ''/home/u/.config/optiscaler/amdxcffx64.dll''\<rparr>)
           fs2 (target_dll sample_compatdata) = Inr fs'
     \<and> nodes fs' (target_dll sample_compatdata) = Some (File ''DLL'')
     \<and> nodes sample_assets ''/home/u/.config/optiscaler'' = Some Dir"
proof -
  let ?op = "\<lparr>version_choice = Some 1, custom_answer = ''n'', custom_path = ''''\<rparr>"
  let ?m = "sample_manager\<lparr>fsr4_dll_path := Some ''/home/u/.config/optiscaler/amdxcffx64.dll''\<rparr>"
  have "case copy_fsr4_dll_to_compatdata sample_manager sample_assets sample_versions ?op
             ''440'' sample_compatdata of
          Inl e \<Rightarrow> False
        | Inr (b, m, f) \<Rightarrow> b \<and> m = ?m \<and> nodes f (target_dll sample_compatdata) = Some (File ''DLL'')"
    by code_simp
  then obtain fs' where r:
    "copy_fsr4_dll_to_compatdata sample_manager sample_assets sample_versions ?op
       ''440'' sample_compatdata = Inr (True, ?m, fs')"
    "nodes fs' (target_dll sample_compatdata) = Some (File ''DLL'')"
    by (auto split: sum.splits prod.splits)
  from copy_fsr4_dll_to_compatdata_outcomes
    [of sample_manager sample_assets sample_versions ?op "''440''" sample_compatdata ?m fs']
    r(1)
  obtain fs1 fs2 where
    "ensure_asset sample_manager sample_assets sample_versions ?op = Inr (True, ?m, fs1)"
    "mkdirs fs1 (system32_chain sample_compatdata) = Inr fs2"
    "is_dir fs2 (system32_path sample_compatdata)"
    "copy_asset ?m fs2 (target_dll sample_compatdata) = Inr fs'"
    by blast
  moreover have "nodes sample_assets ''/home/u/.config/optiscaler'' = Some Dir"
    by (simp add: sample_assets_def)
  ultimately show ?thesis using r(2) by blast
qed

text \<open>
  The claim as stated fails when there is no active asset and the operator cancels the
  selection: the function returns failure although no copy raised (none was tried, and
  the file system is as before); with the same file system the copy succeeds once the
  operator chooses the version.
\<close>

theorem copy_fsr4_dll_to_compatdata_counterexample:
  "copy_fsr4_dll_to_compatdata sample_manager sample_assets sample_versions
     \<lparr>version_choice = Some 3, custom_answer = ''n'', custom_path = ''''\<rparr>
     ''440'' sample_compatdata = Inr (False, sample_manager, sample_assets)
   \<and> (case copy_fsr4_dll_to_compatdata sample_manager sample_assets sample_versions
          \<lparr>version_choice = Some 1, custom_answer = ''n'', custom_path = ''''\<rparr>
          ''440'' sample_compatdata of
        Inl e \<Rightarrow> False
      | Inr (b, m, f) \<Rightarrow> b)
   \<and> nodes sample_assets ''/home/u/.config/optiscaler'' = Some Dir"
proof (intro conjI)
  show "copy_fsr4_dll_to_compatdata sample_manager sample_assets sample_versions
     \<lparr>version_choice = Some 3, custom_answer = ''n'', custom_path = ''''\<rparr>
     ''440'' sample_compatdata = Inr (False, sample_manager, sample_assets)"
    by (simp add: copy_fsr4_dll_to_compatdata_def ensure_asset_def asset_missing_def
        sample_manager_def select_fsr4_version_def sample_versions_def)
  show "case copy_fsr4_dll_to_compatdata sample_manager sample_assets sample_versions
          \<lparr>version_choice = Some 1, custom_answer = ''n'', custom_path = ''''\<rparr>
          ''440'' sample_compatdata of
        Inl e \<Rightarrow> False
      | Inr (b, m, f) \<Rightarrow> b"
    by code_simp
  show "nodes sample_assets ''/home/u/.config/optiscaler'' = Some Dir"
    by (simp add: sample_assets_def)
qed

section \<open>Uninstall and the ledger\<close>








end
